theory Spec2Isabelle
  imports Main "HOL-Library.Sublist"
begin

section \<open>JavaScript string operations used by the gateway\<close>

text \<open>
  Strings are lists of characters. The four string methods the backend relies on are
  written out as recursive functions, so that every check of the source can be evaluated
  on a concrete model id, credential or header.
\<close>

definition startsWith :: "string \<Rightarrow> string \<Rightarrow> bool" where
  "startsWith s p = (take (length p) s = p)"

fun includes_str :: "string \<Rightarrow> string \<Rightarrow> bool" where
  "includes_str [] p = (p = [])"
| "includes_str (c # cs) p = (startsWith (c # cs) p \<or> includes_str cs p)"

definition lower_char :: "char \<Rightarrow> char" where
  "lower_char c =
     (case map_of (zip ''ABCDEFGHIJKLMNOPQRSTUVWXYZ'' ''abcdefghijklmnopqrstuvwxyz'') c of
        Some d \<Rightarrow> d
      | None \<Rightarrow> c)"

text \<open>
  \<^verbatim>\<open>String.prototype.toLowerCase\<close> is the runtime's and is a collaborator of the routes.
  On a string of ASCII characters it is \<^term>\<open>map lower_char\<close>; beyond ASCII it follows
  the Unicode case mappings (the Kelvin sign U+212A becomes \<^verbatim>\<open>k\<close>).
\<close>

fun split_on :: "char \<Rightarrow> string \<Rightarrow> string list" where
  "split_on d [] = [[]]"
| "split_on d (c # cs) =
     (if c = d then [] # split_on d cs
      else (case split_on d cs of
              [] \<Rightarrow> [[c]]
            | w # ws \<Rightarrow> (c # w) # ws))"

definition is_space :: "char \<Rightarrow> bool" where
  "is_space c = (c = CHR '' '' \<or> c = CHR 0x09 \<or> c = CHR 0x0A \<or> c = CHR 0x0D)"

definition trim :: "string \<Rightarrow> string" where
  "trim s = rev (dropWhile is_space (rev (dropWhile is_space s)))"

lemma startsWith_prefix: "startsWith s p \<longleftrightarrow> prefix p s"
  unfolding startsWith_def
  by (metis append_eq_conv_conj prefix_def take_is_prefix)

lemma includes_str_sublist: "includes_str s p \<longleftrightarrow> sublist p s"
proof (induction s)
  case Nil
  show ?case by simp
next
  case (Cons c cs)
  show ?case
    by (simp add: Cons.IH startsWith_prefix sublist_Cons_right)
qed

section \<open>Model router: premium classification\<close>

text \<open>
  Both chat routes classify the selected model with the same three lines
  (\<^verbatim>\<open>premiumModels.some(pm => modelName.includes(pm))\<close> on the lower-cased id).
\<close>

definition premiumModels :: "string list" where
  "premiumModels = [''gpt-4'', ''claude'', ''grok'', ''deepseek'']"

definition isPremiumModel :: "(string \<Rightarrow> string) \<Rightarrow> string \<Rightarrow> bool" where
  "isPremiumModel toLowerCase selectedModel =
     (let modelName = toLowerCase selectedModel
      in list_ex (\<lambda>pm. includes_str modelName pm) premiumModels)"


section \<open>Shared data: messages, files, effects\<close>

text \<open>
  A canonical message has a role and a content that is either plain text or a list of
  parts. Image parts keep the bytes they encode (base64 is a bijection and is not
  modelled) together with the mime type.
\<close>

datatype role = System | User | Assistant

datatype part =
    TextPart string
  | ImagePart string string
  | ImageUrlPart string string
  | InlineData string string

datatype content = Text string | Parts "part list"

datatype message = Message (role_of: role) (content_of: content)

text \<open>The file object the upload middleware attaches to a request.\<close>

record upload =
  originalname :: string
  mimetype :: string
  size_bytes :: int
  path :: string
  filename :: string

text \<open>
  The file system as the attachment code sees it: \<^verbatim>\<open>fs.existsSync\<close>,
  \<^verbatim>\<open>fs.promises.stat\<close> and \<^verbatim>\<open>fs.promises.readFile\<close> of a path. A missing
  path makes \<^verbatim>\<open>stat\<close> and \<^verbatim>\<open>readFile\<close> throw. The size \<^verbatim>\<open>stat\<close> reports and
  the bytes \<^verbatim>\<open>readFile\<close> returns are separate fields.
\<close>

record fs_entry =
  st_size :: int
  bytes :: string

type_synonym filesystem = "string \<Rightarrow> fs_entry option"

datatype provider = OpenAI | Gemini | Claude | Grok | Deepseek

text \<open>One server-sent event: \<^verbatim>\<open>{chunk}\<close>, \<^verbatim>\<open>{done: true}\<close> or \<^verbatim>\<open>{error}\<close>.\<close>

datatype sse = Chunk string | Done | Error string

text \<open>
  Everything a request does to the outside world is recorded, in program order, as a
  list of events: the calls on the Express response (\<^verbatim>\<open>res.write\<close>,
  \<^verbatim>\<open>res.end\<close>, \<^verbatim>\<open>res.status(c).json\<close>, \<^verbatim>\<open>res.json\<close>), each HTTPS request to a
  provider, each file-system call, each access-control step and each write to the durable
  store.
\<close>

datatype event =
    Write sse
  | End
  | SetSSEHeaders
  | StatusJson nat string
  | ReplyJson string
  | Net provider
  | Stat string
  | ReadFile string
  | GetUser
  | SubscriptionLookup
  | ChatLookup
  | ChatCount
  | PremiumGate
  | ProcessUploads
  | BillingLookup
  | SubscriptionWrite
  | DbInsert
  | DbUpdate
  | DbDelete

datatype js_error = JsError (err_message: string)

definition is_net :: "event \<Rightarrow> bool" where
  "is_net e = (case e of Net _ \<Rightarrow> True | _ \<Rightarrow> False)"

definition chunks_of :: "event list \<Rightarrow> string list" where
  "chunks_of evs = concat (map (\<lambda>e. case e of Write (Chunk c) \<Rightarrow> [c] | _ \<Rightarrow> []) evs)"

definition is_terminal :: "event \<Rightarrow> bool" where
  "is_terminal e = (case e of Write Done \<Rightarrow> True | Write (Error _) \<Rightarrow> True | _ \<Rightarrow> False)"

text \<open>The calls on the Express response among the events.\<close>

definition is_res :: "event \<Rightarrow> bool" where
  "is_res e = (case e of Write _ \<Rightarrow> True | End \<Rightarrow> True | SetSSEHeaders \<Rightarrow> True
                 | StatusJson _ _ \<Rightarrow> True | ReplyJson _ \<Rightarrow> True | _ \<Rightarrow> False)"

definition res_calls :: "event list \<Rightarrow> event list" where
  "res_calls evs = filter is_res evs"

lemma res_calls_append [simp]: "res_calls (xs @ ys) = res_calls xs @ res_calls ys"
  by (simp add: res_calls_def)

lemma res_calls_Nil [simp]: "res_calls [] = []"
  by (simp add: res_calls_def)

lemma chunks_of_Nil [simp]: "chunks_of [] = []"
  by (simp add: chunks_of_def)

lemma chunks_of_append [simp]: "chunks_of (xs @ ys) = chunks_of xs @ chunks_of ys"
  by (simp add: chunks_of_def)

lemma chunks_of_Cons:
  "chunks_of (e # evs) = (case e of Write (Chunk c) \<Rightarrow> c # chunks_of evs | _ \<Rightarrow> chunks_of evs)"
  by (cases e) (simp_all add: chunks_of_def split: sse.splits)

lemma chunks_of_res_calls: "chunks_of (res_calls evs) = chunks_of evs"
proof (induction evs)
  case Nil
  show ?case by simp
next
  case (Cons e evs)
  show ?case
  proof (cases "is_res e")
    case True
    then have "res_calls (e # evs) = e # res_calls evs" by (simp add: res_calls_def)
    with Cons show ?thesis by (simp add: chunks_of_Cons split: event.split sse.split)
  next
    case False
    then have r: "res_calls (e # evs) = res_calls evs" by (simp add: res_calls_def)
    from False have "chunks_of (e # evs) = chunks_of evs"
      by (cases e) (simp_all add: chunks_of_Cons is_res_def)
    with r Cons show ?thesis by simp
  qed
qed

section \<open>Configuration (config/env.js)\<close>

type_synonym process_env = "string \<Rightarrow> string option"

text \<open>\<^verbatim>\<open>process.env.KEY || dflt\<close>: an unset or empty variable gives the default.\<close>

definition env_or :: "process_env \<Rightarrow> string \<Rightarrow> string \<Rightarrow> string" where
  "env_or penv key dflt = (case penv key of None \<Rightarrow> dflt | Some v \<Rightarrow> if v = [] then dflt else v)"

definition openai_apiKey :: "process_env \<Rightarrow> string option" where
  "openai_apiKey penv = penv ''OPENAI_API_KEY''"

definition gemini_apiKey :: "process_env \<Rightarrow> string" where
  "gemini_apiKey penv = env_or penv ''GEMINI_API_KEY'' ''<YOUR_GEMINI_API_KEY>''"

definition claude_apiKey :: "process_env \<Rightarrow> string" where
  "claude_apiKey penv = env_or penv ''CLAUDE_API_KEY'' []"

definition grok_apiKey :: "process_env \<Rightarrow> string" where
  "grok_apiKey penv = env_or penv ''GROK_API_KEY'' []"

definition isOpenAIConfigured :: "process_env \<Rightarrow> bool" where
  "isOpenAIConfigured penv =
     (case openai_apiKey penv of None \<Rightarrow> False | Some k \<Rightarrow> k \<noteq> [] \<and> startsWith k ''sk-'')"

definition isGeminiConfigured :: "process_env \<Rightarrow> bool" where
  "isGeminiConfigured penv =
     (gemini_apiKey penv \<noteq> [] \<and> gemini_apiKey penv \<noteq> ''<YOUR_GEMINI_API_KEY>'')"

definition isClaudeConfigured :: "process_env \<Rightarrow> bool" where
  "isClaudeConfigured penv = (claude_apiKey penv \<noteq> [] \<and> startsWith (claude_apiKey penv) ''sk-ant-'')"

definition isGrokConfigured :: "process_env \<Rightarrow> bool" where
  "isGrokConfigured penv = (grok_apiKey penv \<noteq> [] \<and> startsWith (grok_apiKey penv) ''xai-'')"


section \<open>Provider adapters\<close>

subsection \<open>What a provider answers\<close>

text \<open>
  The providers are outside the program. An adapter is given, as a parameter, the
  function that answers its HTTPS request; each time the adapter calls it, the event
  \<^term>\<open>Net p\<close> is recorded. A rejected promise or a thrown exception is the \<^term>\<open>Inl\<close>
  of a sum. Provider streams are finite: a stream that never ends has no model here.
\<close>

datatype 'b response = Response (ok: bool) (status: string) (statusText: string) (body_text: string) (body: 'b)

text \<open>
  A streamed body: the decoded network chunks \<^verbatim>\<open>reader.read()\<close> yields, in order, and
  the error it throws after them, if any.
\<close>

type_synonym stream_body = "string list \<times> string option"

type_synonym stream_fetch = "string \<Rightarrow> message list \<Rightarrow> js_error + stream_body response"

text \<open>
  A JSON body of a one-shot call, reduced to what the adapter reads from it: the text at
  \<^verbatim>\<open>data.content[0].text\<close> (Claude) or \<^verbatim>\<open>data.choices[0].message.content\<close>
  (Grok, Deepseek), or the error thrown when the body does not parse or has no such path.
\<close>

type_synonym json_fetch = "string \<Rightarrow> message list \<Rightarrow> js_error + (js_error + string) response"

text \<open>The OpenAI SDK: \<^verbatim>\<open>openai.chat.completions.create\<close>, one-shot and streamed.\<close>

type_synonym openai_create = "string \<Rightarrow> message list \<Rightarrow> js_error + string"

type_synonym openai_stream = "string \<Rightarrow> message list \<Rightarrow> js_error + (string list \<times> string option)"

datatype json = JNull | JStr string | JArr "json list" | JObj "(string \<times> json) list"

type_synonym json_parse = "string \<Rightarrow> json option"

definition field :: "string \<Rightarrow> json \<Rightarrow> json option" where
  "field k j = (case j of JObj kvs \<Rightarrow> map_of kvs k | _ \<Rightarrow> None)"

definition truthy :: "json option \<Rightarrow> bool" where
  "truthy v = (case v of None \<Rightarrow> False | Some JNull \<Rightarrow> False | Some (JStr s) \<Rightarrow> s \<noteq> [] | Some _ \<Rightarrow> True)"

text \<open>A text-valued property that is present and not empty; text values are strings.\<close>

definition text_field :: "string \<Rightarrow> json \<Rightarrow> string option" where
  "text_field k j = (case field k j of Some (JStr s) \<Rightarrow> if s \<noteq> [] then Some s else None | _ \<Rightarrow> None)"

text \<open>
  \<^verbatim>\<open>data.type === 'content_block_delta' && data.delta && data.delta.text\<close>
\<close>

definition claude_delta :: "json \<Rightarrow> string option" where
  "claude_delta data =
     (if field ''type'' data = Some (JStr ''content_block_delta'') \<and> truthy (field ''delta'' data)
      then (case field ''delta'' data of Some d \<Rightarrow> text_field ''text'' d | None \<Rightarrow> None)
      else None)"

text \<open>
  \<^verbatim>\<open>data.choices && data.choices[0] && data.choices[0].delta && data.choices[0].delta.content\<close>
\<close>

definition choices_delta :: "json \<Rightarrow> string option" where
  "choices_delta data =
     (case field ''choices'' data of
        Some (JArr (c0 # _)) \<Rightarrow>
          (if truthy (Some c0) \<and> truthy (field ''delta'' c0)
           then (case field ''delta'' c0 of Some d \<Rightarrow> text_field ''content'' d | None \<Rightarrow> None)
           else None)
      | _ \<Rightarrow> None)"

subsection \<open>The streaming loop shared by the fetch-based adapters\<close>

text \<open>
  One line of a network chunk: only a line that starts with \<^verbatim>\<open>data: \<close>, is not the
  \<^verbatim>\<open>[DONE]\<close> marker, parses, and carries a delta text produces a chunk; a parse error
  is caught and logged inside the loop.
\<close>

definition stream_line :: "(json \<Rightarrow> string option) \<Rightarrow> json_parse \<Rightarrow> string \<Rightarrow> string option" where
  "stream_line extract parse line =
     (if startsWith line ''data: '' then
        (if line = ''data: [DONE]'' then None
         else (case parse (drop 6 line) of None \<Rightarrow> None | Some data \<Rightarrow> extract data))
      else None)"

text \<open>
  The inner \<^verbatim>\<open>for (const line of lines)\<close>: each delta is written to the client and
  appended to \<^verbatim>\<open>completeResponse\<close>, in that order.
\<close>

fun stream_lines ::
  "(json \<Rightarrow> string option) \<Rightarrow> json_parse \<Rightarrow> string list \<Rightarrow> string \<Rightarrow> event list \<times> string" where
  "stream_lines extract parse [] completeResponse = ([], completeResponse)"
| "stream_lines extract parse (line # lines) completeResponse =
     (case stream_line extract parse line of
        None \<Rightarrow> stream_lines extract parse lines completeResponse
      | Some content \<Rightarrow>
          (let (evs, r) = stream_lines extract parse lines (completeResponse @ content)
           in (Write (Chunk content) # evs, r)))"

text \<open>The outer \<^verbatim>\<open>while (true)\<close> over \<^verbatim>\<open>reader.read()\<close>.\<close>

fun read_loop ::
  "(json \<Rightarrow> string option) \<Rightarrow> json_parse \<Rightarrow> string list \<Rightarrow> string \<Rightarrow> event list \<times> string" where
  "read_loop extract parse [] completeResponse = ([], completeResponse)"
| "read_loop extract parse (chunk # rest) completeResponse =
     (let (evs1, r1) = stream_lines extract parse (split_on (CHR 0x0A) chunk) completeResponse;
          (evs2, r2) = read_loop extract parse rest r1
      in (evs1 @ evs2, r2))"

definition api_error :: "string \<Rightarrow> 'b response \<Rightarrow> js_error" where
  "api_error pname resp = JsError (pname @ '' API error: '' @ status resp @ '' '' @ statusText resp)"

definition api_error_text :: "string \<Rightarrow> 'b response \<Rightarrow> js_error" where
  "api_error_text pname resp =
     JsError (pname @ '' API error: '' @ status resp @ '' '' @ statusText resp @ '' - '' @ body_text resp)"

definition failed_stream :: "event list" where
  "failed_stream = [Write (Error ''Failed to generate AI response''), End]"

text \<open>
  \<^verbatim>\<open>typeof onComplete === 'function'\<close>: the callback is optional. It receives the
  complete response and works on the caller's state; the route's callback catches its
  own exceptions, so a callback returns.
\<close>

type_synonym 's on_complete = "(string \<Rightarrow> 's \<Rightarrow> event list \<times> 's) option"

definition run_on_complete :: "'s on_complete \<Rightarrow> string \<Rightarrow> 's \<Rightarrow> event list \<times> 's" where
  "run_on_complete onComplete completeResponse st =
     (case onComplete of None \<Rightarrow> ([], st) | Some f \<Rightarrow> f completeResponse st)"

text \<open>
  The \<^verbatim>\<open>try\<close> block of \<^verbatim>\<open>generateClaudeStreamingResponse\<close>,
  \<^verbatim>\<open>generateGrokStreamingResponse\<close> and \<^verbatim>\<open>generateDeepseekStreamingResponse\<close>,
  which differ in the endpoint, the delta they extract and the text of the error for a
  response that is not ok. The result is
  the events, the caller's state after the callback, and the value returned or thrown.
\<close>

definition sse_streaming ::
  "provider \<Rightarrow> (stream_body response \<Rightarrow> js_error) \<Rightarrow> (json \<Rightarrow> string option) \<Rightarrow> json_parse \<Rightarrow>
   (js_error + stream_body response) \<Rightarrow> 's on_complete \<Rightarrow> 's \<Rightarrow>
   event list \<times> 's \<times> (js_error + string option)" where
  "sse_streaming p not_ok extract parse answer onComplete st =
     (case answer of
        Inl err \<Rightarrow> (Net p # failed_stream, st, Inl err)
      | Inr resp \<Rightarrow>
          if \<not> ok resp then
            (Net p # failed_stream, st, Inl (not_ok resp))
          else
            (let (evs, completeResponse) = read_loop extract parse (fst (body resp)) []
             in (case snd (body resp) of
                   Some e \<Rightarrow> (Net p # evs @ failed_stream, st, Inl (JsError e))
                 | None \<Rightarrow>
                     (let (cb, st') = run_on_complete onComplete completeResponse st
                      in (Net p # evs @ [Write Done, End] @ cb, st', Inr (Some completeResponse))))))"

definition not_configured :: "string \<Rightarrow> string" where
  "not_configured pname = pname @ '' API key not configured. Please contact administrator.''"

text \<open>The one-shot counterpart: \<^verbatim>\<open>fetch\<close>, the status check, the text of the body.\<close>

definition json_call ::
  "provider \<Rightarrow> ((js_error + string) response \<Rightarrow> js_error) \<Rightarrow>
   (js_error + (js_error + string) response) \<Rightarrow> event list \<times> (js_error + string)" where
  "json_call p not_ok answer =
     ([Net p],
      (case answer of
         Inl err \<Rightarrow> Inl err
       | Inr resp \<Rightarrow> if \<not> ok resp then Inl (not_ok resp) else body resp))"

subsection \<open>Claude (claudeService.js)\<close>

definition CLAUDE_MODEL_MAPPING :: "(string \<times> string) list" where
  "CLAUDE_MODEL_MAPPING =
     [(''claude-3-5-sonnet'', ''claude-3-5-sonnet-20240620''),
      (''claude-3-7-sonnet'', ''claude-3-7-sonnet-20250219''),
      (''claude-3-opus'', ''claude-3-opus-20240229''),
      (''claude-3-haiku'', ''claude-3-5-haiku-20240307'')]"

definition getClaudeModelName :: "string \<Rightarrow> string" where
  "getClaudeModelName modelName =
     (if includes_str modelName ''-202'' then modelName
      else (case map_of CLAUDE_MODEL_MAPPING modelName of
              Some m \<Rightarrow> m
            | None \<Rightarrow> ''claude-3-5-sonnet-20240620''))"

definition generateClaudeResponse ::
  "process_env \<Rightarrow> json_fetch \<Rightarrow> message list \<Rightarrow> string \<Rightarrow> event list \<times> (js_error + string)" where
  "generateClaudeResponse penv fetch messages model =
     (let claudeModel = getClaudeModelName model
      in if \<not> isClaudeConfigured penv then ([], Inl (JsError (not_configured ''Claude'')))
         else json_call Claude (api_error ''Claude'') (fetch claudeModel messages))"

definition generateClaudeStreamingResponse ::
  "process_env \<Rightarrow> stream_fetch \<Rightarrow> json_parse \<Rightarrow> message list \<Rightarrow> string \<Rightarrow> 's on_complete \<Rightarrow> 's \<Rightarrow>
   event list \<times> 's \<times> (js_error + string option)" where
  "generateClaudeStreamingResponse penv fetch parse messages model onComplete st =
     (let claudeModel = getClaudeModelName model
      in if \<not> isClaudeConfigured penv then
           ([Write (Error (not_configured ''Claude'')), End], st, Inr None)
         else sse_streaming Claude (api_error ''Claude'') claude_delta parse (fetch claudeModel messages) onComplete st)"

subsection \<open>Grok (grokService.js)\<close>

definition GROK_MODEL_MAPPING :: "(string \<times> string) list" where
  "GROK_MODEL_MAPPING =
     [(''grok-1'', ''grok-1''), (''grok-2'', ''grok-2-latest''),
      (''grok-2-latest'', ''grok-2-latest''), (''grok'', ''grok-2-latest'')]"

definition getGrokModelName :: "string \<Rightarrow> string" where
  "getGrokModelName modelName =
     (case map_of GROK_MODEL_MAPPING modelName of Some m \<Rightarrow> m | None \<Rightarrow> ''grok-2-latest'')"

definition generateGrokResponse ::
  "process_env \<Rightarrow> json_fetch \<Rightarrow> message list \<Rightarrow> string \<Rightarrow> event list \<times> (js_error + string)" where
  "generateGrokResponse penv fetch messages model =
     (let grokModel = getGrokModelName model
      in if \<not> isGrokConfigured penv then ([], Inl (JsError (not_configured ''Grok'')))
         else json_call Grok (api_error ''Grok'') (fetch grokModel messages))"

definition generateGrokStreamingResponse ::
  "process_env \<Rightarrow> stream_fetch \<Rightarrow> json_parse \<Rightarrow> message list \<Rightarrow> string \<Rightarrow> 's on_complete \<Rightarrow> 's \<Rightarrow>
   event list \<times> 's \<times> (js_error + string option)" where
  "generateGrokStreamingResponse penv fetch parse messages model onComplete st =
     (let grokModel = getGrokModelName model
      in if \<not> isGrokConfigured penv then
           ([Write (Error (not_configured ''Grok'')), End], st, Inr None)
         else sse_streaming Grok (api_error ''Grok'') choices_delta parse (fetch grokModel messages) onComplete st)"

subsection \<open>Deepseek (deepseekService.js)\<close>

text \<open>
  The module reads \<^verbatim>\<open>config.deepseek\<close>, an entry config/env.js does not define, and
  the server does not import the module. Its configuration predicate is therefore a
  parameter here.
\<close>

definition DEEPSEEK_MODEL_MAPPING :: "(string \<times> string) list" where
  "DEEPSEEK_MODEL_MAPPING =
     [(''deepseek-r1'', ''deepseek-reasoner''), (''deepseek'', ''deepseek-chat''),
      (''deepseek-chat'', ''deepseek-chat'')]"

definition getDeepseekModelName :: "string \<Rightarrow> string" where
  "getDeepseekModelName modelName =
     (case map_of DEEPSEEK_MODEL_MAPPING modelName of Some m \<Rightarrow> m | None \<Rightarrow> ''deepseek-chat'')"

definition generateDeepseekResponse ::
  "bool \<Rightarrow> json_fetch \<Rightarrow> message list \<Rightarrow> string \<Rightarrow> event list \<times> (js_error + string)" where
  "generateDeepseekResponse isDeepseekConfigured fetch messages model =
     (let deepseekModel = getDeepseekModelName model
      in if \<not> isDeepseekConfigured then ([], Inl (JsError (not_configured ''Deepseek'')))
         else json_call Deepseek (api_error_text ''Deepseek'') (fetch deepseekModel messages))"

definition generateDeepseekStreamingResponse ::
  "bool \<Rightarrow> stream_fetch \<Rightarrow> json_parse \<Rightarrow> message list \<Rightarrow> string \<Rightarrow> 's on_complete \<Rightarrow> 's \<Rightarrow>
   event list \<times> 's \<times> (js_error + string option)" where
  "generateDeepseekStreamingResponse isDeepseekConfigured fetch parse messages model onComplete st =
     (let deepseekModel = getDeepseekModelName model
      in if \<not> isDeepseekConfigured then
           ([Write (Error (not_configured ''Deepseek'')), End], st, Inr None)
         else sse_streaming Deepseek (api_error_text ''Deepseek'') choices_delta parse
                (fetch deepseekModel messages) onComplete st)"

subsection \<open>OpenAI (openaiService.js)\<close>

definition generateOpenAIResponse ::
  "process_env \<Rightarrow> openai_create \<Rightarrow> message list \<Rightarrow> string \<Rightarrow> event list \<times> (js_error + string)" where
  "generateOpenAIResponse penv create messages model =
     (if \<not> isOpenAIConfigured penv then ([], Inl (JsError (not_configured ''OpenAI'')))
      else ([Net OpenAI], create model messages))"

text \<open>
  \<^verbatim>\<open>for await (const chunk of stream)\<close>: the content of a chunk is
  \<^verbatim>\<open>chunk.choices[0]?.delta?.content || ''\<close>, so an absent content is the empty
  string, and an empty content is neither written nor accumulated.
\<close>

fun openai_loop :: "string list \<Rightarrow> string \<Rightarrow> event list \<times> string" where
  "openai_loop [] completeResponse = ([], completeResponse)"
| "openai_loop (content # rest) completeResponse =
     (if content \<noteq> [] then
        (let (evs, r) = openai_loop rest (completeResponse @ content)
         in (Write (Chunk content) # evs, r))
      else openai_loop rest completeResponse)"

definition generateOpenAIStreamingResponse ::
  "process_env \<Rightarrow> openai_stream \<Rightarrow> message list \<Rightarrow> string \<Rightarrow> 's on_complete \<Rightarrow> 's \<Rightarrow>
   event list \<times> 's \<times> (js_error + string option)" where
  "generateOpenAIStreamingResponse penv create messages model onComplete st =
     (if \<not> isOpenAIConfigured penv then
        ([Write (Error (not_configured ''OpenAI'')), End], st, Inr None)
      else (case create model messages of
              Inl err \<Rightarrow> (Net OpenAI # failed_stream, st, Inl err)
            | Inr (contents, thrown) \<Rightarrow>
                (let (evs, completeResponse) = openai_loop contents []
                 in (case thrown of
                       Some e \<Rightarrow> (Net OpenAI # evs @ failed_stream, st, Inl (JsError e))
                     | None \<Rightarrow>
                         (let (cb, st') = run_on_complete onComplete completeResponse st
                          in (Net OpenAI # evs @ [Write Done, End] @ cb, st',
                              Inr (Some completeResponse)))))))"


subsection \<open>Gemini (geminiService.js)\<close>

definition non_null :: "'a option list \<Rightarrow> 'a list" where
  "non_null xs = List.map_filter (\<lambda>x. x) xs"

definition GEMINI_MODEL_MAPPING :: "(string \<times> string) list" where
  "GEMINI_MODEL_MAPPING =
     [(''gemini-pro'', ''gemini-pro''), (''gemini-pro-vision'', ''gemini-pro-vision''),
      (''gemini-2.0-flash'', ''gemini-2.0-flash''), (''gemini-flash'', ''gemini-2.0-flash''),
      (''gemini-2.0-pro'', ''gemini-2.0-pro'')]"

definition getCurrentGeminiModel :: "string \<Rightarrow> string" where
  "getCurrentGeminiModel modelName =
     (case map_of GEMINI_MODEL_MAPPING modelName of Some m \<Rightarrow> m | None \<Rightarrow> ''gemini-pro'')"

text \<open>
  \<^verbatim>\<open>processImagesForGemini\<close>: every file is read; a file that cannot be read becomes
  \<^verbatim>\<open>null\<close>. \<^term>\<open>InlineData d m\<close> is \<^verbatim>\<open>{inlineData: {data: d, mimeType: m}}\<close>.
\<close>

definition gemini_inline :: "filesystem \<Rightarrow> upload \<Rightarrow> event list \<times> part option" where
  "gemini_inline fs file =
     ([ReadFile (path file)],
      (case fs (path file) of
         None \<Rightarrow> None
       | Some e \<Rightarrow> Some (InlineData (bytes e) (mimetype file))))"

fun processImagesForGemini :: "filesystem \<Rightarrow> upload list \<Rightarrow> event list \<times> part option list" where
  "processImagesForGemini fs [] = ([], [])"
| "processImagesForGemini fs (file # files) =
     (let (evs1, img) = gemini_inline fs file;
          (evs2, imgs) = processImagesForGemini fs files
      in (evs1 @ evs2, img # imgs))"

text \<open>
  The body of a Gemini answer, as far as the adapter reads it:
  \<^verbatim>\<open>candidates[0].content.parts[0].text\<close>, every step of which may be absent.
\<close>

datatype gpart = GPart "string option"

datatype gcontent = GContent "gpart list option"

datatype gcandidate = GCandidate "gcontent option"

type_synonym gemini_fetch =
  "string \<Rightarrow> part list \<Rightarrow> js_error + (js_error + gcandidate list option) response"

definition gemini_reply :: "gcandidate list option \<Rightarrow> string" where
  "gemini_reply candidates =
     (case candidates of
        Some (GCandidate (Some (GContent (Some (GPart (Some t) # _)))) # _) \<Rightarrow>
          (if t \<noteq> [] then t else ''Error processing Gemini response.'')
      | _ \<Rightarrow> ''Error processing Gemini response.'')"

text \<open>
  What \<^verbatim>\<open>generateGeminiResponse\<close> makes of the answer to its request: a failed
  \<^verbatim>\<open>fetch\<close>, a status that is not ok and a body that does not parse are thrown.
\<close>

definition gemini_answer ::
  "js_error + (js_error + gcandidate list option) response \<Rightarrow> js_error + string" where
  "gemini_answer answer =
     (case answer of
        Inl err \<Rightarrow> Inl err
      | Inr resp \<Rightarrow>
          if \<not> ok resp then
            Inl (JsError (''Gemini API responded with '' @ status resp @ '': '' @ body_text resp))
          else (case body resp of
                  Inl err \<Rightarrow> Inl err
                | Inr candidates \<Rightarrow> Inr (gemini_reply candidates)))"

definition generateGeminiResponse ::
  "process_env \<Rightarrow> filesystem \<Rightarrow> gemini_fetch \<Rightarrow> string \<Rightarrow> string \<Rightarrow> upload list \<Rightarrow>
   event list \<times> (js_error + string)" where
  "generateGeminiResponse penv fs fetch userContent modelName imageFiles =
     (let geminiModel = getCurrentGeminiModel modelName
      in if \<not> isGeminiConfigured penv then ([], Inl (JsError (not_configured ''Gemini'')))
         else
           (let hasImages = (imageFiles \<noteq> []);
                apiModel =
                  (if hasImages \<and> \<not> includes_str geminiModel ''2.0''
                      \<and> \<not> includes_str geminiModel ''gemini-pro-vision''
                   then ''gemini-pro-vision'' else geminiModel);
                text_parts = (if userContent \<noteq> [] then [TextPart userContent] else []);
                (evs, processedImages) =
                  (if hasImages then processImagesForGemini fs imageFiles else ([], []));
                validImages = non_null processedImages
            in (evs @ [Net Gemini], gemini_answer (fetch apiModel (text_parts @ validImages)))))"

text \<open>
  \<^verbatim>\<open>handleGeminiStreamingRequest\<close>: the blocking call, then the whole reply as one
  chunk, then the done event; on an exception one error event, and the exception is
  thrown again.
\<close>

definition handleGeminiStreamingRequest ::
  "process_env \<Rightarrow> filesystem \<Rightarrow> gemini_fetch \<Rightarrow> string \<Rightarrow> string \<Rightarrow> upload list \<Rightarrow>
   event list \<times> (js_error + string)" where
  "handleGeminiStreamingRequest penv fs fetch userContent selectedModel imageFiles =
     (case generateGeminiResponse penv fs fetch userContent selectedModel imageFiles of
        (evs, Inr botReply) \<Rightarrow> (evs @ [Write (Chunk botReply), Write Done, End], Inr botReply)
      | (evs, Inl err) \<Rightarrow>
          (evs @ [Write (Error (''Gemini API error: '' @ err_message err)), End], Inl err))"

section \<open>Attachment processor (fileUtils.js)\<close>

text \<open>
  The events of one file are in program order. The files of one call are handled by
  \<^verbatim>\<open>Promise.all\<close>; their events are listed file by file.
\<close>

definition MiB :: int where
  "MiB = 1024 * 1024"

definition is_image :: "upload \<Rightarrow> bool" where
  "is_image file = startsWith (mimetype file) ''image/''"

definition existsSync :: "filesystem \<Rightarrow> string \<Rightarrow> bool" where
  "existsSync fs p = (fs p \<noteq> None)"

text \<open>\<^verbatim>\<open>readFileContent\<close>: the text of a document, cut to 100 KiB above 1 MiB.\<close>

definition readFileContent :: "filesystem \<Rightarrow> string \<Rightarrow> event list \<times> string option" where
  "readFileContent fs filePath =
     (case fs filePath of
        None \<Rightarrow> ([], None)
      | Some e \<Rightarrow>
          if st_size e > 1024 * 1024 then
            ([Stat filePath, ReadFile filePath],
             Some (take (100 * 1024) (bytes e) @ [CHR 0x0A, CHR 0x0A]
                   @ ''... [Content truncated due to size] ...''))
          else ([Stat filePath, ReadFile filePath], Some (bytes e)))"

text \<open>
  \<^verbatim>\<open>fileToDataURL\<close>: \<^term>\<open>ImageUrlPart m d\<close> stands for the data URL
  \<^verbatim>\<open>data:m;base64,d\<close>. The function has a 10 MiB limit of its own.
\<close>

definition fileToDataURL :: "filesystem \<Rightarrow> string \<Rightarrow> string \<Rightarrow> event list \<times> part option" where
  "fileToDataURL fs filePath mimeType =
     (case fs filePath of
        None \<Rightarrow> ([], None)
      | Some e \<Rightarrow>
          if st_size e > 10 * 1024 * 1024 then ([Stat filePath], None)
          else ([Stat filePath, ReadFile filePath],
                Some (ImageUrlPart (if mimeType = [] then ''application/octet-stream'' else mimeType)
                        (bytes e))))"

text \<open>One image for Claude: \<^term>\<open>ImagePart m d\<close> is the base64 source block.\<close>

definition claude_image :: "filesystem \<Rightarrow> upload \<Rightarrow> event list \<times> part option" where
  "claude_image fs file =
     (case fs (path file) of
        None \<Rightarrow> ([Stat (path file)], None)
      | Some e \<Rightarrow>
          if st_size e > 10 * 1024 * 1024 then ([Stat (path file)], None)
          else ([Stat (path file), ReadFile (path file)], Some (ImagePart (mimetype file) (bytes e))))"

definition gemini_image :: "filesystem \<Rightarrow> upload \<Rightarrow> event list \<times> part option" where
  "gemini_image fs file =
     (case fs (path file) of
        None \<Rightarrow> ([Stat (path file)], None)
      | Some e \<Rightarrow>
          if st_size e > 10 * 1024 * 1024 then ([Stat (path file)], None)
          else ([Stat (path file), ReadFile (path file)], Some (InlineData (bytes e) (mimetype file))))"

text \<open>One image for Grok or OpenAI: the 20 MiB check, then \<^verbatim>\<open>fileToDataURL\<close>.\<close>

definition data_url_image :: "filesystem \<Rightarrow> upload \<Rightarrow> event list \<times> part option" where
  "data_url_image fs file =
     (case fs (path file) of
        None \<Rightarrow> ([Stat (path file)], None)
      | Some e \<Rightarrow>
          if st_size e > 20 * 1024 * 1024 then ([Stat (path file)], None)
          else (let (evs, dataUrl) = fileToDataURL fs (path file) (mimetype file)
                in (Stat (path file) # evs, dataUrl)))"

fun each_image ::
  "(upload \<Rightarrow> event list \<times> part option) \<Rightarrow> upload list \<Rightarrow> event list \<times> part option list" where
  "each_image f [] = ([], [])"
| "each_image f (file # files) =
     (let (evs1, img) = f file;
          (evs2, imgs) = each_image f files
      in (evs1 @ evs2, img # imgs))"

definition valid_image_files :: "filesystem \<Rightarrow> upload list \<Rightarrow> upload list" where
  "valid_image_files fs files =
     filter (\<lambda>file. mimetype file \<noteq> [] \<and> is_image file \<and> existsSync fs (path file)) files"

definition prepareClaudeImages :: "filesystem \<Rightarrow> upload list \<Rightarrow> event list \<times> part list" where
  "prepareClaudeImages fs files =
     (let imageFiles = valid_image_files fs files;
          (evs, results) = each_image (claude_image fs) imageFiles
      in (evs, non_null results))"

text \<open>
  \<^verbatim>\<open>prepareImagesForModel\<close>. The Claude branch returns the images already filtered,
  the other branches return one entry per image file, \<^verbatim>\<open>null\<close> for a dropped one;
  the routes filter the \<^verbatim>\<open>null\<close>s out (\<^verbatim>\<open>validImageContents\<close>).
\<close>

definition prepareImagesForModel ::
  "filesystem \<Rightarrow> upload list \<Rightarrow> string \<Rightarrow> event list \<times> part option list" where
  "prepareImagesForModel fs files targetModel =
     (let imageFiles = valid_image_files fs files
      in if imageFiles = [] then ([], [])
         else if includes_str targetModel ''claude'' then
           (let (evs, imgs) = prepareClaudeImages fs imageFiles in (evs, map Some imgs))
         else if includes_str targetModel ''gemini'' then each_image (gemini_image fs) imageFiles
         else if includes_str targetModel ''grok'' then each_image (data_url_image fs) imageFiles
         else each_image (data_url_image fs) imageFiles)"

definition validImageContents ::
  "filesystem \<Rightarrow> upload list \<Rightarrow> string \<Rightarrow> event list \<times> part list" where
  "validImageContents fs files targetModel =
     (let (evs, imageContents) = prepareImagesForModel fs files targetModel
      in (evs, non_null imageContents))"


section \<open>Server state and collaborators (server.js)\<close>

text \<open>
  One row of the durable \<^verbatim>\<open>chats\<close> table. \<^verbatim>\<open>messages\<close> and
  \<^verbatim>\<open>message_count\<close> may be null. The table is a list of rows; \<^verbatim>\<open>id\<close> is its key.
\<close>

record chat_row =
  chat_id :: string
  user_id :: string
  messages :: "message list option"
  message_count :: "nat option"

record user_row =
  users_id :: string
  is_subscribed :: "bool option"
  stripe_subscription_id :: "string option"

record file_info =
  fi_filename :: string
  fi_originalName :: string
  fi_mimetype :: string
  fi_size :: int
  fi_path :: string

text \<open>
  The three in-memory maps of the server process and the two durable tables.
\<close>

record server_state =
  userConversations :: "string \<rightharpoonup> message list"
  userSelectedModel :: "string \<rightharpoonup> string"
  sessionFiles :: "string \<rightharpoonup> file_info list"
  chats :: "chat_row list"
  users :: "user_row list"

datatype auth_result = AuthError string | NoUser | AuthUser string | AuthThrows string

text \<open>
  The collaborators of one request: the process environment, the file system, the
  identity service (\<^verbatim>\<open>supabase.auth.getUser\<close>), the billing service
  (\<^verbatim>\<open>stripe.subscriptions.retrieve\<close>, \<^term>\<open>None\<close> when it throws), the providers,
  \<^verbatim>\<open>JSON.parse\<close>, whether a write to the durable store succeeds, the rendering
  \<^verbatim>\<open>(size / 1024).toFixed(2)\<close> and \<^verbatim>\<open>Date.now()\<close>, and whether the two reads of the
  chats table a route makes (the lookup of the session's row, the count of the user's
  rows) fail, and \<^verbatim>\<open>String.prototype.toLowerCase\<close>. The store's client returns its
  errors as values; only \<^verbatim>\<open>getUser\<close> is modelled as able to throw.
\<close>

record env =
  env_penv :: process_env
  env_fs :: filesystem
  env_getUser :: "string \<Rightarrow> auth_result"
  env_stripe :: "string \<Rightarrow> string option"
  env_users_error :: bool
  env_openai_create :: openai_create
  env_openai_stream :: openai_stream
  env_claude_json :: json_fetch
  env_claude_stream :: stream_fetch
  env_grok_json :: json_fetch
  env_grok_stream :: stream_fetch
  env_gemini :: gemini_fetch
  env_parse :: json_parse
  env_db_ok :: bool
  env_toFixed2 :: "int \<Rightarrow> string"
  env_now :: string
  env_lookup_error :: bool
  env_count_error :: bool
  env_toLowerCase :: "string \<Rightarrow> string"

text \<open>The parsed request: body fields (empty when absent), files, Authorization header.\<close>

record request =
  req_sessionId :: string
  req_message :: string
  req_model :: string
  req_files :: "upload list"
  req_authorization :: "string option"

subsection \<open>Subscription status\<close>

definition find_user :: "user_row list \<Rightarrow> string \<Rightarrow> user_row option" where
  "find_user rows userId = find (\<lambda>r. users_id r = userId) rows"

definition set_subscribed :: "string \<Rightarrow> bool \<Rightarrow> user_row list \<Rightarrow> user_row list" where
  "set_subscribed userId v rows =
     map (\<lambda>r. if users_id r = userId then r\<lparr>is_subscribed := Some v\<rparr> else r) rows"

definition flag :: "bool option \<Rightarrow> bool" where
  "flag b = (case b of Some True \<Rightarrow> True | _ \<Rightarrow> False)"

text \<open>
  \<^verbatim>\<open>isUserSubscribed\<close>: the stored flag, checked against the billing service when a
  subscription id is on file, and written back on a mismatch.
\<close>

definition isUserSubscribed :: "env \<Rightarrow> server_state \<Rightarrow> string \<Rightarrow> event list \<times> bool \<times> server_state" where
  "isUserSubscribed e st userId =
     (if userId = [] then ([], False, st)
      else if env_users_error e then ([SubscriptionLookup], False, st)
      else
        (let profile = find_user (users st) userId
         in (case (case profile of None \<Rightarrow> None | Some p \<Rightarrow> stripe_subscription_id p) of
               Some sid \<Rightarrow>
                 (if sid = [] then ([SubscriptionLookup], flag (case profile of None \<Rightarrow> None | Some p \<Rightarrow> is_subscribed p), st)
                  else (case env_stripe e sid of
                          Some subscription_status \<Rightarrow>
                            (let isActive = (subscription_status = ''active''
                                             \<or> subscription_status = ''trialing'')
                             in if (case profile of None \<Rightarrow> None | Some p \<Rightarrow> is_subscribed p) \<noteq> Some isActive
                                   \<and> env_db_ok e
                                then ([SubscriptionLookup, BillingLookup, SubscriptionWrite], isActive,
                                      st\<lparr>users := set_subscribed userId isActive (users st)\<rparr>)
                                else ([SubscriptionLookup, BillingLookup], isActive, st))
                        | None \<Rightarrow>
                            ([SubscriptionLookup, BillingLookup],
                             flag (case profile of None \<Rightarrow> None | Some p \<Rightarrow> is_subscribed p), st)))
             | None \<Rightarrow>
                 ([SubscriptionLookup],
                  flag (case profile of None \<Rightarrow> None | Some p \<Rightarrow> is_subscribed p), st))))"

subsection \<open>Persisting a turn\<close>

definition find_chat :: "chat_row list \<Rightarrow> string \<Rightarrow> string \<Rightarrow> chat_row option" where
  "find_chat rows sessionId userId = find (\<lambda>r. chat_id r = sessionId \<and> user_id r = userId) rows"

definition count_chats :: "chat_row list \<Rightarrow> string \<Rightarrow> nat" where
  "count_chats rows userId = length (filter (\<lambda>r. user_id r = userId) rows)"

definition insert_chat :: "chat_row \<Rightarrow> chat_row list \<Rightarrow> chat_row list" where
  "insert_chat row rows = (if list_ex (\<lambda>r. chat_id r = chat_id row) rows then rows else rows @ [row])"

definition update_chat :: "string \<Rightarrow> message list \<Rightarrow> nat \<Rightarrow> chat_row list \<Rightarrow> chat_row list" where
  "update_chat sessionId ms n rows =
     map (\<lambda>r. if chat_id r = sessionId then r\<lparr>messages := Some ms, message_count := Some n\<rparr> else r) rows"

text \<open>
  The block \<^verbatim>\<open>// Save chat to database\<close>, which the one-shot route, the Gemini
  branch of the streaming route and \<^verbatim>\<open>saveCompletedChat\<close> each contain: insert a row
  with the two messages of the turn and \<^verbatim>\<open>message_count: 1\<close> when the session had no
  row, otherwise append the two messages to the row read at the start of the request
  and add one to its \<^verbatim>\<open>message_count\<close>. A failed write is logged and ignored.
\<close>

definition save_chat ::
  "env \<Rightarrow> string \<Rightarrow> string \<Rightarrow> string \<Rightarrow> string \<Rightarrow> chat_row option \<Rightarrow> server_state \<Rightarrow>
   event list \<times> server_state" where
  "save_chat e sessionId userId userContent botReply existingChat st =
     (case existingChat of
        None \<Rightarrow>
          (let chatMessages = [Message User (Text userContent), Message Assistant (Text botReply)]
           in ([DbInsert],
               if env_db_ok e then
                 st\<lparr>chats := insert_chat \<lparr>chat_id = sessionId, user_id = userId,
                                          messages = Some chatMessages, message_count = Some 1\<rparr>
                                        (chats st)\<rparr>
               else st))
      | Some ec \<Rightarrow>
          (let updatedMessages =
                 (case messages ec of Some ms \<Rightarrow> ms | None \<Rightarrow> [])
                 @ [Message User (Text userContent), Message Assistant (Text botReply)];
               n = (case message_count ec of Some n \<Rightarrow> n | None \<Rightarrow> 0) + 1
           in ([DbUpdate],
               if env_db_ok e then st\<lparr>chats := update_chat sessionId updatedMessages n (chats st)\<rparr>
               else st)))"

definition conversation :: "server_state \<Rightarrow> string \<Rightarrow> message list" where
  "conversation st sessionId = (case userConversations st sessionId of Some h \<Rightarrow> h | None \<Rightarrow> [])"

definition push_message :: "string \<Rightarrow> message \<Rightarrow> server_state \<Rightarrow> server_state" where
  "push_message sessionId m st =
     st\<lparr>userConversations := (userConversations st)(sessionId \<mapsto> conversation st sessionId @ [m])\<rparr>"

text \<open>
  \<^verbatim>\<open>saveCompletedChat\<close>, the callback the streaming adapters call with the complete
  response: the user message is pushed unless the history already holds one with the
  same text, the assistant message is pushed, and the turn is saved.
\<close>

definition saveCompletedChat ::
  "env \<Rightarrow> string \<Rightarrow> string \<Rightarrow> string \<Rightarrow> chat_row option \<Rightarrow> string \<Rightarrow> server_state \<Rightarrow>
   event list \<times> server_state" where
  "saveCompletedChat e sessionId userId userContent existingChat completeResponse st =
     (let st1 = (if userContent \<noteq> []
                    \<and> \<not> list_ex (\<lambda>msg. role_of msg = User \<and> content_of msg = Text userContent)
                          (conversation st sessionId)
                 then push_message sessionId (Message User (Text userContent)) st else st);
          st2 = push_message sessionId (Message Assistant (Text completeResponse)) st1
      in save_chat e sessionId userId userContent completeResponse existingChat st2)"

subsection \<open>Intake, authentication, quotas\<close>

text \<open>\<^verbatim>\<open>authHeader.split(' ')[1]\<close>, with the check \<^verbatim>\<open>!token\<close>.\<close>

definition bearer_token :: "string \<Rightarrow> string option" where
  "bearer_token authHeader =
     (case split_on (CHR '' '') authHeader of
        _ # token # _ \<Rightarrow> if token = [] then None else Some token
      | _ \<Rightarrow> None)"

definition auth_header :: "string option \<Rightarrow> event + string" where
  "auth_header authorization =
     (case authorization of
        None \<Rightarrow> Inl (StatusJson 401 ''Missing Authorization header'')
      | Some authHeader \<Rightarrow>
          if authHeader = [] then Inl (StatusJson 401 ''Missing Authorization header'')
          else (case bearer_token authHeader of
                  None \<Rightarrow> Inl (StatusJson 401 ''Malformed Authorization header'')
                | Some token \<Rightarrow> Inr token))"

datatype quota = QuotaOk | QuotaNewChat | QuotaMessages

text \<open>
  \<^verbatim>\<open>// Enforce free tier chat limits\<close>, the same in both routes: a user who is not
  subscribed may not start a chat when three exist, and may not continue a chat whose
  \<^verbatim>\<open>message_count\<close> has reached 20.
\<close>

text \<open>
  The reads of the quota check. Both routes take \<^verbatim>\<open>data\<close> and \<^verbatim>\<open>count\<close> out of the
  store's answer and drop its \<^verbatim>\<open>error\<close>: after a failed lookup \<^verbatim>\<open>existingChat\<close> is
  \<^verbatim>\<open>null\<close>, after a failed count \<^verbatim>\<open>totalChats\<close> is \<^verbatim>\<open>null\<close> and \<^verbatim>\<open>null >= 3\<close> is false.
\<close>

definition lookup_chat :: "env \<Rightarrow> chat_row list \<Rightarrow> string \<Rightarrow> string \<Rightarrow> chat_row option" where
  "lookup_chat e rows sessionId userId =
     (if env_lookup_error e then None else find_chat rows sessionId userId)"

definition count_of_chats :: "env \<Rightarrow> chat_row list \<Rightarrow> string \<Rightarrow> nat option" where
  "count_of_chats e rows userId = (if env_count_error e then None else Some (count_chats rows userId))"

definition check_quota ::
  "env \<Rightarrow> chat_row list \<Rightarrow> bool \<Rightarrow> chat_row option \<Rightarrow> string \<Rightarrow> event list \<times> quota" where
  "check_quota e rows isSubscribed existingChat userId =
     (if \<not> isSubscribed then
        (case existingChat of
           None \<Rightarrow>
             ([ChatCount],
              if (case count_of_chats e rows userId of Some totalChats \<Rightarrow> totalChats \<ge> 3 | None \<Rightarrow> False)
              then QuotaNewChat else QuotaOk)
         | Some ec \<Rightarrow>
             ([], if (case message_count ec of Some n \<Rightarrow> n \<ge> 20 | None \<Rightarrow> False)
                  then QuotaMessages else QuotaOk))
      else ([], QuotaOk))"

subsection \<open>Uploaded files of a request\<close>

definition file_info_of :: "env \<Rightarrow> upload \<Rightarrow> file_info option" where
  "file_info_of e file =
     (if path file = [] \<or> \<not> existsSync (env_fs e) (path file) then None
      else Some \<lparr>fi_filename = (if filename file = [] then ''file-'' @ env_now e else filename file),
                 fi_originalName = (if originalname file = [] then ''unknown'' else originalname file),
                 fi_mimetype = (if mimetype file = [] then ''application/octet-stream''
                                else mimetype file),
                 fi_size = size_bytes file,
                 fi_path = path file\<rparr>)"

text \<open>\<^verbatim>\<open>processUploadedFiles\<close>: the files that exist are registered under the session.\<close>

definition processUploadedFiles ::
  "env \<Rightarrow> upload list \<Rightarrow> string \<Rightarrow> server_state \<Rightarrow> file_info list \<times> server_state" where
  "processUploadedFiles e files sessionId st =
     (if files = [] then ([], st)
      else
        (let sid = (if sessionId = [] then ''unknown-'' @ env_now e else sessionId);
             filesList = (case sessionFiles st sid of Some l \<Rightarrow> l | None \<Rightarrow> []);
             infos = non_null (map (file_info_of e) files)
         in (infos, st\<lparr>sessionFiles := (sessionFiles st)(sid \<mapsto> filesList @ infos)\<rparr>)))"

definition upload_stage :: "env \<Rightarrow> request \<Rightarrow> server_state \<Rightarrow> event list \<times> server_state" where
  "upload_stage e req st =
     (if req_files req \<noteq> [] then
        ([ProcessUploads], snd (processUploadedFiles e (req_files req) (req_sessionId req) st))
      else ([], st))"

definition join_str :: "string \<Rightarrow> string list \<Rightarrow> string" where
  "join_str sep xs = (case xs of [] \<Rightarrow> [] | x # rest \<Rightarrow> x @ concat (map (\<lambda>y. sep @ y) rest))"

definition nl :: string where
  "nl = [CHR 0x0A]"

definition is_text_like :: "upload \<Rightarrow> bool" where
  "is_text_like file =
     (startsWith (mimetype file) ''text/'' \<or> includes_str (mimetype file) ''json''
      \<or> includes_str (mimetype file) ''csv'')"

text \<open>The description of one document, with its content when it is text.\<close>

definition text_file_info :: "env \<Rightarrow> upload \<Rightarrow> event list \<times> string" where
  "text_file_info e file =
     (let fileInfo = ''- '' @ originalname file @ '' ('' @ mimetype file @ '', ''
                     @ env_toFixed2 e (size_bytes file) @ '' KB)''
      in if is_text_like file then
           (case readFileContent (env_fs e) (path file) of
              (evs, Some fileContent) \<Rightarrow>
                (evs, if fileContent \<noteq> [] then
                        fileInfo @ nl @ nl @ ''Content of '' @ originalname file @ '':'' @ nl
                        @ ''```'' @ nl @ fileContent @ nl @ ''```''
                      else fileInfo)
            | (evs, None) \<Rightarrow> (evs, fileInfo))
         else ([], fileInfo @ nl @ ''[Binary file]''))"

fun text_files_info :: "env \<Rightarrow> upload list \<Rightarrow> event list \<times> string list" where
  "text_files_info e [] = ([], [])"
| "text_files_info e (file # files) =
     (let (evs1, info) = text_file_info e file;
          (evs2, infos) = text_files_info e files
      in (evs1 @ evs2, info # infos))"

definition textFilesContent :: "env \<Rightarrow> upload list \<Rightarrow> event list \<times> string" where
  "textFilesContent e textFiles =
     (if textFiles = [] then ([], [])
      else (let (evs, textFilesInfo) = text_files_info e textFiles
            in (evs, ''I'' @ [CHR 0x27] @ ''ve attached the following text-based files:'' @ nl
                     @ join_str (nl @ nl) textFilesInfo @ nl @ nl)))"

definition user_content :: "string \<Rightarrow> string \<Rightarrow> string" where
  "user_content message textContent =
     (if textContent \<noteq> [] then message @ (if message \<noteq> [] then nl @ nl else []) @ textContent
      else message)"

subsection \<open>Session and model selection\<close>

definition init_session :: "string \<Rightarrow> string \<Rightarrow> server_state \<Rightarrow> server_state" where
  "init_session sessionId model st =
     (if userConversations st sessionId = None then
        st\<lparr>userConversations := (userConversations st)
               (sessionId \<mapsto> [Message System (Text ''You are PantherAI, a helpful assistant.'')]),
           userSelectedModel := (userSelectedModel st)
               (sessionId \<mapsto> (if model = [] then ''gpt-3.5-turbo'' else model))\<rparr>
      else st)"

definition select_model :: "string \<Rightarrow> string \<Rightarrow> server_state \<Rightarrow> string \<times> server_state" where
  "select_model sessionId model st =
     (let stored = (case userSelectedModel st sessionId of
                      Some m \<Rightarrow> if m = [] then ''gpt-3.5-turbo'' else m
                    | None \<Rightarrow> ''gpt-3.5-turbo'');
          selectedModel = (if model \<noteq> [] then model else stored)
      in (selectedModel,
          st\<lparr>userSelectedModel := (userSelectedModel st)(sessionId \<mapsto> selectedModel)\<rparr>))"

definition image_message :: "string \<Rightarrow> part list \<Rightarrow> message" where
  "image_message userContent validImages =
     Message User
       (Parts (TextPart (if userContent = [] then ''Please analyze these images and provide insights:''
                         else userContent) # validImages))"

subsection \<open>The streaming route \<^verbatim>\<open>POST /api/chat/stream\<close>\<close>

text \<open>
  A stage of a route either has answered the request (its events end with the reply) or
  hands its result on.
\<close>

datatype 'a stage = Replied | Proceed 'a

record access =
  ac_userId :: string
  ac_isSubscribed :: bool
  ac_existingChat :: "chat_row option"
  ac_selectedModel :: string

definition sse_error :: "string \<Rightarrow> event list" where
  "sse_error m = [Write (Error m), End]"

definition premium_denied :: string where
  "premium_denied = ''Model not available for free users. Please subscribe to access this model.''"

text \<open>Validation before the stream is opened: a JSON reply with a 4xx status.\<close>

definition stream_intake :: "request \<Rightarrow> event + string" where
  "stream_intake req =
     (if req_sessionId req = [] then Inl (StatusJson 400 ''Session ID is required.'')
      else if \<not> (req_message req \<noteq> [] \<and> trim (req_message req) \<noteq> []) \<and> req_files req = []
      then Inl (StatusJson 400 ''Message or files are required.'')
      else auth_header (req_authorization req))"

text \<open>
  The route after the quotas, up to the premium gate: registration of the uploaded files,
  the session in memory, the selected model, and the premium check.
\<close>

definition stream_gate ::
  "env \<Rightarrow> server_state \<Rightarrow> request \<Rightarrow> string \<Rightarrow> bool \<Rightarrow> chat_row option \<Rightarrow>
   event list \<times> server_state \<times> access stage" where
  "stream_gate e st1 req userId isSubscribed existingChat =
     (let (evs3, st2) = upload_stage e req st1;
          st3 = init_session (req_sessionId req) (req_model req) st2;
          (selectedModel, st4) = select_model (req_sessionId req) (req_model req) st3
      in if isPremiumModel (env_toLowerCase e) selectedModel \<and> \<not> isSubscribed then
           (evs3 @ [PremiumGate] @ sse_error premium_denied, st4, Replied)
         else
           (evs3 @ [PremiumGate], st4,
            Proceed \<lparr>ac_userId = userId, ac_isSubscribed = isSubscribed,
                     ac_existingChat = existingChat, ac_selectedModel = selectedModel\<rparr>))"

definition stream_new_chat_denied :: string where
  "stream_new_chat_denied = ''Free tier limit reached: Maximum 3 chats allowed.''"

definition stream_messages_denied :: string where
  "stream_messages_denied = ''Free tier limit: Maximum 20 messages per chat reached.''"

text \<open>
  The route for an authenticated user, up to the quotas: subscription status, the
  durable row of the session, the two quotas.
\<close>

definition stream_quota ::
  "env \<Rightarrow> server_state \<Rightarrow> request \<Rightarrow> string \<Rightarrow> event list \<times> server_state \<times> access stage" where
  "stream_quota e st req userId =
     (let (evs1, isSubscribed, st1) = isUserSubscribed e st userId;
          existingChat = lookup_chat e (chats st1) (req_sessionId req) userId;
          (evs2, q) = check_quota e (chats st1) isSubscribed existingChat userId;
          pre = [SetSSEHeaders, GetUser] @ evs1 @ [ChatLookup] @ evs2
      in (case q of
            QuotaNewChat \<Rightarrow>
              (pre @ sse_error stream_new_chat_denied, st1, Replied)
          | QuotaMessages \<Rightarrow> (pre @ sse_error stream_messages_denied, st1, Replied)
          | QuotaOk \<Rightarrow>
              (let (evs3, st4, r) = stream_gate e st1 req userId isSubscribed existingChat
               in (pre @ evs3, st4, r))))"

text \<open>From the SSE headers on: authentication, then the stages above.\<close>

definition stream_access :: "env \<Rightarrow> server_state \<Rightarrow> request \<Rightarrow> string \<Rightarrow> event list \<times> server_state \<times> access stage" where
  "stream_access e st req token =
     (case env_getUser e token of
        AuthError m \<Rightarrow>
          ([SetSSEHeaders, GetUser] @ sse_error (''Authentication failed: '' @ m), st, Replied)
      | NoUser \<Rightarrow> ([SetSSEHeaders, GetUser] @ sse_error ''No user found for this token'', st, Replied)
      | AuthThrows m \<Rightarrow> ([SetSSEHeaders, GetUser] @ sse_error ''Authentication error'', st, Replied)
      | AuthUser userId \<Rightarrow> stream_quota e st req userId)"

text \<open>
  The multimodal message replaces the text-only user message when the last message is
  the user's.
\<close>

definition replace_last_user :: "message \<Rightarrow> message list \<Rightarrow> message list" where
  "replace_last_user m msgs =
     (if msgs \<noteq> [] \<and> role_of (last msgs) = User then butlast msgs @ [m] else msgs @ [m])"

definition attach_images ::
  "env \<Rightarrow> string \<Rightarrow> string \<Rightarrow> upload list \<Rightarrow> string \<Rightarrow> message list \<Rightarrow>
   event list \<times> (string + message list)" where
  "attach_images e target pname imageFiles userContent msgs =
     (let (evs, validImages) = validImageContents (env_fs e) imageFiles target
      in if validImages \<noteq> [] then
           (evs, Inr (replace_last_user (image_message userContent validImages) msgs))
         else (evs, Inl (''Failed to process image attachments for '' @ pname)))"

definition stream_images ::
  "env \<Rightarrow> string \<Rightarrow> upload list \<Rightarrow> string \<Rightarrow> message list \<Rightarrow> event list \<times> (string + message list)" where
  "stream_images e selectedModel imageFiles userContent msgs =
     (if imageFiles = [] then ([], Inr msgs)
      else if includes_str selectedModel ''claude'' then
        attach_images e ''claude'' ''Claude'' imageFiles userContent msgs
      else if \<not> includes_str selectedModel ''gemini'' \<and> \<not> includes_str selectedModel ''grok'' then
        attach_images e ''openai'' ''OpenAI'' imageFiles userContent msgs
      else if includes_str selectedModel ''grok'' then
        attach_images e ''grok'' ''Grok'' imageFiles userContent msgs
      else ([], Inr msgs))"

text \<open>
  What the Gemini branch of the streaming route does with the reply: both messages are
  pushed onto the history in memory, and the turn is saved.
\<close>

definition save_gemini_turn ::
  "env \<Rightarrow> string \<Rightarrow> string \<Rightarrow> string \<Rightarrow> chat_row option \<Rightarrow> string \<Rightarrow> server_state \<Rightarrow>
   event list \<times> server_state" where
  "save_gemini_turn e sessionId userId userContent existingChat botReply st =
     (let st1 = push_message sessionId (Message User (Text userContent)) st;
          st2 = push_message sessionId (Message Assistant (Text botReply)) st1
      in save_chat e sessionId userId userContent botReply existingChat st2)"

text \<open>
  The dispatch on the selected model. The Gemini, Claude and Grok branches catch what
  the adapter throws (\<^verbatim>\<open>// Error already handled in streaming function\<close>); the
  OpenAI branch does not, so what \<^verbatim>\<open>generateOpenAIStreamingResponse\<close> throws reaches
  the \<^verbatim>\<open>catch\<close> of the route, which writes an error event and ends the response.
\<close>

definition stream_dispatch ::
  "env \<Rightarrow> server_state \<Rightarrow> string \<Rightarrow> access \<Rightarrow> string \<Rightarrow> upload list \<Rightarrow> message list \<Rightarrow>
   event list \<times> server_state" where
  "stream_dispatch e st sessionId ac userContent imageFiles msgs =
     (let selectedModel = ac_selectedModel ac;
          onComplete = Some (saveCompletedChat e sessionId (ac_userId ac) userContent (ac_existingChat ac))
      in if includes_str selectedModel ''gemini'' then
           (let geminiUserContent = (if userContent = [] then ''Please analyze these images.''
                                     else userContent)
            in (case handleGeminiStreamingRequest (env_penv e) (env_fs e) (env_gemini e)
                       geminiUserContent selectedModel imageFiles of
                  (evs, Inr botReply) \<Rightarrow>
                    (let (evs2, st') = save_gemini_turn e sessionId (ac_userId ac) userContent
                                         (ac_existingChat ac) botReply st
                     in (evs @ evs2, st'))
                | (evs, Inl err) \<Rightarrow> (evs, st)))
         else if includes_str selectedModel ''claude'' then
           (let (evs, st', r) = generateClaudeStreamingResponse (env_penv e) (env_claude_stream e)
                                  (env_parse e) msgs selectedModel onComplete st
            in (evs, st'))
         else if includes_str selectedModel ''grok'' then
           (let (evs, st', r) = generateGrokStreamingResponse (env_penv e) (env_grok_stream e)
                                  (env_parse e) msgs selectedModel onComplete st
            in (evs, st'))
         else
           (let (evs, st', r) = generateOpenAIStreamingResponse (env_penv e) (env_openai_stream e)
                                  msgs selectedModel onComplete st
            in (case r of
                  Inl err \<Rightarrow> (evs @ sse_error ''Failed to generate AI response'', st')
                | Inr completeResponse \<Rightarrow> (evs, st'))))"

text \<open>
  The prompt of a streaming turn: the files by kind, the text attachments, and the user
  content, which is the message, then the description of the documents, or a stock
  prompt when both are empty and no image is attached.
\<close>

definition stream_prompt :: "env \<Rightarrow> request \<Rightarrow> event list \<times> string \<times> upload list" where
  "stream_prompt e req =
     (let imageFiles = filter (\<lambda>f. mimetype f \<noteq> [] \<and> is_image f) (req_files req);
          textFiles = filter (\<lambda>f. mimetype f \<noteq> [] \<and> \<not> is_image f) (req_files req);
          (evs_t, textContent) = textFilesContent e textFiles;
          uc = user_content (req_message req) textContent;
          userContent = (if uc = [] \<and> imageFiles = [] then ''Please analyze the attached files.''
                         else uc)
      in (evs_t, userContent, imageFiles))"

text \<open>
  The messages for the provider: a system prompt, the history in memory without its
  first message, and the user content when it is not empty.
\<close>

definition stream_messages :: "server_state \<Rightarrow> string \<Rightarrow> string \<Rightarrow> message list" where
  "stream_messages st sessionId userContent =
     (let conversationHistory = conversation st sessionId;
          msgs0 = Message System (Text (''You are PantherAI, a helpful assistant that can analyze ''
                    @ ''various types of documents and images to help users.''))
                  # tl conversationHistory
      in if userContent \<noteq> [] then msgs0 @ [Message User (Text userContent)] else msgs0)"

text \<open>After the premium gate: the messages for the provider, the images, the dispatch.\<close>

definition stream_turn :: "env \<Rightarrow> server_state \<Rightarrow> request \<Rightarrow> access \<Rightarrow> event list \<times> server_state" where
  "stream_turn e st req ac =
     (let (evs_t, userContent, imageFiles) = stream_prompt e req;
          msgs1 = stream_messages st (req_sessionId req) userContent
      in (case stream_images e (ac_selectedModel ac) imageFiles userContent msgs1 of
            (evs_i, Inl err) \<Rightarrow> (evs_t @ evs_i @ sse_error err, st)
          | (evs_i, Inr msgs) \<Rightarrow>
              (let (evs_d, st') = stream_dispatch e st (req_sessionId req) ac userContent imageFiles msgs
               in (evs_t @ evs_i @ evs_d, st'))))"

definition stream_handler :: "env \<Rightarrow> server_state \<Rightarrow> request \<Rightarrow> event list \<times> server_state" where
  "stream_handler e st req =
     (case stream_intake req of
        Inl reply \<Rightarrow> ([reply], st)
      | Inr token \<Rightarrow>
          (case stream_access e st req token of
             (evs, st1, Replied) \<Rightarrow> (evs, st1)
           | (evs, st1, Proceed ac) \<Rightarrow>
               (let (evs2, st2) = stream_turn e st1 req ac in (evs @ evs2, st2))))"

subsection \<open>The one-shot route \<^verbatim>\<open>POST /api/chat\<close>\<close>

record chat_access =
  ca_access :: access
  ca_userContent :: string
  ca_imageFiles :: "upload list"

definition chat_intake :: "request \<Rightarrow> event + string" where
  "chat_intake req =
     (if req_sessionId req = [] \<or> (req_message req = [] \<and> req_files req = []) then
        Inl (StatusJson 400 ''Session ID and either message or files are required.'')
      else auth_header (req_authorization req))"

text \<open>
  The route after the quotas, up to the premium gate. Before the premium check it
  registers the uploaded files, reads the text attachments, and pushes the user message
  onto the history in memory.
\<close>

definition chat_gate ::
  "env \<Rightarrow> server_state \<Rightarrow> request \<Rightarrow> string \<Rightarrow> bool \<Rightarrow> chat_row option \<Rightarrow>
   event list \<times> server_state \<times> chat_access stage" where
  "chat_gate e st1 req userId isSubscribed existingChat =
     (let (evs3, st2) = upload_stage e req st1;
          st3 = init_session (req_sessionId req) (req_model req) st2;
          imageFiles = filter is_image (req_files req);
          textFiles = filter (\<lambda>f. \<not> is_image f) (req_files req);
          (evs_t, textContent) = textFilesContent e textFiles;
          uc = user_content (req_message req) textContent;
          userContent = (if uc = [] \<and> (imageFiles \<noteq> [] \<or> textFiles \<noteq> [])
                         then ''Please analyze the attached files.'' else uc);
          st4 = push_message (req_sessionId req) (Message User (Text userContent)) st3;
          (selectedModel, st5) = select_model (req_sessionId req) (req_model req) st4
      in if isPremiumModel (env_toLowerCase e) selectedModel \<and> \<not> isSubscribed then
           (evs3 @ evs_t @ [PremiumGate, StatusJson 403 premium_denied], st5, Replied)
         else
           (evs3 @ evs_t @ [PremiumGate], st5,
            Proceed \<lparr>ca_access = \<lparr>ac_userId = userId, ac_isSubscribed = isSubscribed,
                                   ac_existingChat = existingChat,
                                   ac_selectedModel = selectedModel\<rparr>,
                     ca_userContent = userContent,
                     ca_imageFiles = imageFiles\<rparr>))"

definition new_chat_denied :: string where
  "new_chat_denied = ''Free tier limit reached: Maximum 3 chats allowed. Please upgrade to continue.''"

definition messages_denied :: string where
  "messages_denied = ''Free tier limit: Maximum 20 messages per chat reached. ''
                     @ ''Please start a new chat or upgrade for unlimited access.''"

definition chat_quota ::
  "env \<Rightarrow> server_state \<Rightarrow> request \<Rightarrow> string \<Rightarrow> event list \<times> server_state \<times> chat_access stage" where
  "chat_quota e st req userId =
     (let (evs1, isSubscribed, st1) = isUserSubscribed e st userId;
          existingChat = lookup_chat e (chats st1) (req_sessionId req) userId;
          (evs2, q) = check_quota e (chats st1) isSubscribed existingChat userId;
          pre = [GetUser] @ evs1 @ [ChatLookup] @ evs2
      in (case q of
            QuotaNewChat \<Rightarrow> (pre @ [StatusJson 403 new_chat_denied], st1, Replied)
          | QuotaMessages \<Rightarrow> (pre @ [StatusJson 403 messages_denied], st1, Replied)
          | QuotaOk \<Rightarrow>
              (let (evs3, st5, r) = chat_gate e st1 req userId isSubscribed existingChat
               in (pre @ evs3, st5, r))))"

definition chat_access :: "env \<Rightarrow> server_state \<Rightarrow> request \<Rightarrow> string \<Rightarrow> event list \<times> server_state \<times> chat_access stage" where
  "chat_access e st req token =
     (case env_getUser e token of
        AuthError m \<Rightarrow> ([GetUser, StatusJson 401 (''Authentication failed: '' @ m)], st, Replied)
      | NoUser \<Rightarrow> ([GetUser, StatusJson 401 ''No user found for this token''], st, Replied)
      | AuthThrows m \<Rightarrow> ([GetUser, StatusJson 500 ''Authentication error''], st, Replied)
      | AuthUser userId \<Rightarrow> chat_quota e st req userId)"

text \<open>
  The images of a one-shot turn: when none is valid the text-only message stays.
\<close>

definition chat_attach ::
  "env \<Rightarrow> string \<Rightarrow> upload list \<Rightarrow> string \<Rightarrow> message list \<Rightarrow> event list \<times> message list" where
  "chat_attach e target imageFiles userContent msgs =
     (let (evs, validImages) = validImageContents (env_fs e) imageFiles target
      in if validImages \<noteq> [] then (evs, butlast msgs @ [image_message userContent validImages])
         else (evs, msgs))"

definition chat_images ::
  "env \<Rightarrow> string \<Rightarrow> upload list \<Rightarrow> string \<Rightarrow> message list \<Rightarrow> event list \<times> message list" where
  "chat_images e selectedModel imageFiles userContent msgs =
     (if imageFiles = [] then ([], msgs)
      else if includes_str selectedModel ''claude'' then chat_attach e ''claude'' imageFiles userContent msgs
      else if \<not> includes_str selectedModel ''gemini'' \<and> \<not> includes_str selectedModel ''grok'' then
        chat_attach e ''openai'' imageFiles userContent msgs
      else if includes_str selectedModel ''grok'' then chat_attach e ''grok'' imageFiles userContent msgs
      else ([], msgs))"

definition chat_dispatch ::
  "env \<Rightarrow> string \<Rightarrow> string \<Rightarrow> upload list \<Rightarrow> message list \<Rightarrow> event list \<times> (js_error + string)" where
  "chat_dispatch e selectedModel userContent imageFiles msgs =
     (if includes_str selectedModel ''gemini'' then
        generateGeminiResponse (env_penv e) (env_fs e) (env_gemini e) userContent selectedModel imageFiles
      else if includes_str selectedModel ''claude'' then
        generateClaudeResponse (env_penv e) (env_claude_json e) msgs selectedModel
      else if includes_str selectedModel ''grok'' then
        generateGrokResponse (env_penv e) (env_grok_json e) msgs selectedModel
      else generateOpenAIResponse (env_penv e) (env_openai_create e) msgs selectedModel)"

definition chat_turn :: "env \<Rightarrow> server_state \<Rightarrow> request \<Rightarrow> chat_access \<Rightarrow> event list \<times> server_state" where
  "chat_turn e st req ca =
     (let ac = ca_access ca;
          selectedModel = ac_selectedModel ac;
          userContent = ca_userContent ca;
          (evs_i, msgs) = chat_images e selectedModel (ca_imageFiles ca) userContent
                            (conversation st (req_sessionId req))
      in (case chat_dispatch e selectedModel userContent (ca_imageFiles ca) msgs of
            (evs_d, Inl err) \<Rightarrow>
              (evs_i @ evs_d @ [StatusJson 500 (selectedModel @ '' API error: '' @ err_message err)], st)
          | (evs_d, Inr botReply) \<Rightarrow>
              (let st1 = push_message (req_sessionId req) (Message Assistant (Text botReply)) st;
                   (evs_s, st2) = save_chat e (req_sessionId req) (ac_userId ac) userContent botReply
                                    (ac_existingChat ac) st1
               in (evs_i @ evs_d @ evs_s @ [ReplyJson botReply], st2))))"

definition chat_handler :: "env \<Rightarrow> server_state \<Rightarrow> request \<Rightarrow> event list \<times> server_state" where
  "chat_handler e st req =
     (case chat_intake req of
        Inl reply \<Rightarrow> ([reply], st)
      | Inr token \<Rightarrow>
          (case chat_access e st req token of
             (evs, st1, Replied) \<Rightarrow> (evs, st1)
           | (evs, st1, Proceed ca) \<Rightarrow>
               (let (evs2, st2) = chat_turn e st1 req ca in (evs @ evs2, st2))))"

subsection \<open>The route \<^verbatim>\<open>DELETE /api/chat/:sessionId\<close>\<close>

definition delete_rows :: "string \<Rightarrow> string \<Rightarrow> chat_row list \<Rightarrow> chat_row list" where
  "delete_rows sessionId userId rows =
     filter (\<lambda>r. \<not> (chat_id r = sessionId \<and> user_id r = userId)) rows"

text \<open>
  The row of the session is deleted when it belongs to the authenticated user; after a
  successful delete the session is removed from the three maps in memory.
\<close>

definition delete_handler ::
  "env \<Rightarrow> server_state \<Rightarrow> string \<Rightarrow> string option \<Rightarrow> event list \<times> server_state" where
  "delete_handler e st sessionId authorization =
     (if sessionId = [] then ([StatusJson 400 ''Chat ID is required.''], st)
      else (case auth_header authorization of
              Inl reply \<Rightarrow> ([reply], st)
            | Inr token \<Rightarrow>
                (case env_getUser e token of
                   AuthError m \<Rightarrow> ([GetUser, StatusJson 401 (''Authentication failed: '' @ m)], st)
                 | NoUser \<Rightarrow> ([GetUser, StatusJson 401 ''No user found for this token''], st)
                 | AuthThrows m \<Rightarrow> ([GetUser, StatusJson 500 ''Authentication error''], st)
                 | AuthUser userId \<Rightarrow>
                     if env_db_ok e then
                       ([GetUser, DbDelete, ReplyJson ''success''],
                        st\<lparr>chats := delete_rows sessionId userId (chats st),
                           sessionFiles := (sessionFiles st)(sessionId := None),
                           userConversations := (userConversations st)(sessionId := None),
                           userSelectedModel := (userSelectedModel st)(sessionId := None)\<rparr>)
                     else ([GetUser, DbDelete, StatusJson 500 ''Failed to delete chat.''], st))))"

section \<open>Properties of the provider adapters\<close>

subsection \<open>Simulated streaming for Gemini\<close>

lemma processImagesForGemini_no_res: "res_calls (fst (processImagesForGemini fs files)) = []"
proof (induction files)
  case Nil
  show ?case by simp
next
  case (Cons f files)
  obtain evs imgs where r: "processImagesForGemini fs files = (evs, imgs)"
    by (cases "processImagesForGemini fs files")
  with Cons show ?case
    by (simp add: gemini_inline_def res_calls_def is_res_def)
qed

lemma generateGeminiResponse_no_res:
  "res_calls (fst (generateGeminiResponse penv fs fetch userContent modelName imageFiles)) = []"
proof -
  obtain ievs imgs where r: "processImagesForGemini fs imageFiles = (ievs, imgs)"
    by (cases "processImagesForGemini fs imageFiles")
  have img: "res_calls ievs = []"
    using processImagesForGemini_no_res [of fs imageFiles] r by simp
  have net: "res_calls [Net Gemini] = []"
    by (simp add: res_calls_def is_res_def)
  show ?thesis
  proof (cases "isGeminiConfigured penv")
    case False
    then show ?thesis by (simp add: generateGeminiResponse_def)
  next
    case True
    show ?thesis
    proof (cases "imageFiles = []")
      case True
      with \<open>isGeminiConfigured penv\<close> show ?thesis
        by (simp add: generateGeminiResponse_def net Let_def)
    next
      case False
      with \<open>isGeminiConfigured penv\<close> show ?thesis
        by (simp add: generateGeminiResponse_def r img net Let_def)
    qed
  qed
qed

text \<open>Concrete collaborators, used to run the definitions on an input.\<close>

definition penv_demo :: process_env where
  "penv_demo = [''GEMINI_API_KEY'' \<mapsto> ''AIza-demo'', ''OPENAI_API_KEY'' \<mapsto> ''sk-demo'',
                ''CLAUDE_API_KEY'' \<mapsto> ''sk-ant-demo'', ''GROK_API_KEY'' \<mapsto> ''xai-demo'']"

definition gemini_demo :: gemini_fetch where
  "gemini_demo apiModel parts =
     Inr (Response True ''200'' ''OK'' []
            (Inr (Some [GCandidate (Some (GContent (Some [GPart (Some ''hello there'')])))])))"

definition cat_png :: upload where
  "cat_png = \<lparr>originalname = ''cat.png'', mimetype = ''image/png'', size_bytes = 3,
              path = ''uploads/files-1.png'', filename = ''files-1.png''\<rparr>"

definition fs_demo :: filesystem where
  "fs_demo = [''uploads/files-1.png'' \<mapsto> \<lparr>st_size = 3, bytes = ''abc''\<rparr>]"

text \<open>
  C7. For Gemini, whose endpoint is called in one blocking request, the streaming entry
  point delivers exactly the text the one-shot call \<^const>\<open>generateGeminiResponse\<close>
  returns: whenever that call returns \<open>botReply\<close>, the calls
  \<^const>\<open>handleGeminiStreamingRequest\<close> makes on the response are one chunk event
  carrying \<open>botReply\<close>, immediately followed by the done event and the end of the
  stream, its other effects are those of the one-shot call, the chunks concatenate to
  \<open>botReply\<close>, and \<open>botReply\<close> is what it returns: the shape (chunks, then done) of a
  natively streamed reply.
\<close>

theorem gemini_streaming_is_one_chunk_then_done:
  assumes "generateGeminiResponse penv fs fetch userContent model imageFiles = (evs, Inr botReply)"
  shows "handleGeminiStreamingRequest penv fs fetch userContent model imageFiles
           = (evs @ [Write (Chunk botReply), Write Done, End], Inr botReply)
         \<and> res_calls (fst (handleGeminiStreamingRequest penv fs fetch userContent model imageFiles))
           = [Write (Chunk botReply), Write Done, End]
         \<and> concat (chunks_of (fst (handleGeminiStreamingRequest penv fs fetch userContent model imageFiles)))
           = botReply"
proof -
  have h: "handleGeminiStreamingRequest penv fs fetch userContent model imageFiles
           = (evs @ [Write (Chunk botReply), Write Done, End], Inr botReply)"
    using assms by (simp add: handleGeminiStreamingRequest_def)
  have quiet: "res_calls evs = []"
    using generateGeminiResponse_no_res [of penv fs fetch userContent model imageFiles] assms by simp
  have no_chunks: "chunks_of evs = []"
    using quiet chunks_of_res_calls [of evs] by simp
  show ?thesis
    using h quiet no_chunks by (simp add: res_calls_def is_res_def chunks_of_def)
qed

theorem gemini_streaming_is_one_chunk_then_done_witness:
  "generateGeminiResponse penv_demo fs_demo gemini_demo ''hi'' ''gemini-2.0-flash'' [cat_png]
     = ([ReadFile ''uploads/files-1.png'', Net Gemini], Inr ''hello there'')
   \<and> handleGeminiStreamingRequest penv_demo fs_demo gemini_demo ''hi'' ''gemini-2.0-flash'' [cat_png]
     = ([ReadFile ''uploads/files-1.png'', Net Gemini,
         Write (Chunk ''hello there''), Write Done, End], Inr ''hello there'')"
proof -
  have g: "generateGeminiResponse penv_demo fs_demo gemini_demo ''hi'' ''gemini-2.0-flash'' [cat_png]
     = ([ReadFile ''uploads/files-1.png'', Net Gemini], Inr ''hello there'')"
    by code_simp
  show ?thesis
    using g gemini_streaming_is_one_chunk_then_done [OF g] by simp
qed

subsection \<open>Configuration checks\<close>

lemma env_or_empty: "env_or penv key [] \<noteq> [] \<and> startsWith (env_or penv key []) p
    \<longleftrightarrow> (\<exists>k. penv key = Some k \<and> k \<noteq> [] \<and> prefix p k)"
  by (cases "penv key") (auto simp: env_or_def startsWith_prefix)

lemma isOpenAIConfigured_iff:
  "isOpenAIConfigured penv \<longleftrightarrow> (\<exists>k. penv ''OPENAI_API_KEY'' = Some k \<and> k \<noteq> [] \<and> prefix ''sk-'' k)"
  by (cases "penv ''OPENAI_API_KEY''")
     (simp_all add: isOpenAIConfigured_def openai_apiKey_def startsWith_prefix)

lemma isClaudeConfigured_iff:
  "isClaudeConfigured penv \<longleftrightarrow> (\<exists>k. penv ''CLAUDE_API_KEY'' = Some k \<and> k \<noteq> [] \<and> prefix ''sk-ant-'' k)"
  unfolding isClaudeConfigured_def claude_apiKey_def by (rule env_or_empty)

lemma isGrokConfigured_iff:
  "isGrokConfigured penv \<longleftrightarrow> (\<exists>k. penv ''GROK_API_KEY'' = Some k \<and> k \<noteq> [] \<and> prefix ''xai-'' k)"
  unfolding isGrokConfigured_def grok_apiKey_def by (rule env_or_empty)

lemma isGeminiConfigured_iff:
  "isGeminiConfigured penv \<longleftrightarrow>
     (\<exists>k. penv ''GEMINI_API_KEY'' = Some k \<and> k \<noteq> [] \<and> k \<noteq> ''<YOUR_GEMINI_API_KEY>'')"
  by (cases "penv ''GEMINI_API_KEY''")
     (simp_all add: isGeminiConfigured_def gemini_apiKey_def env_or_def)

text \<open>
  C8. For every provider adapter the configuration check is a function of the process
  environment alone (it has no effect and makes no network call) and holds iff the
  provider's credential is set, not empty and plausible: the prefix \<^verbatim>\<open>sk-\<close> for
  OpenAI, \<^verbatim>\<open>sk-ant-\<close> for Claude, \<^verbatim>\<open>xai-\<close> for Grok, and anything but the
  placeholder for Gemini. Every one-shot call on an unconfigured adapter throws the
  configuration error, and every streaming call on one writes the configuration error as
  its only event and ends the stream; in both cases no event \<^term>\<open>Net p\<close> is recorded,
  so no request has been sent. (Deepseek's predicate is not defined by config/env.js and
  is a parameter.)
\<close>

theorem unconfigured_adapter_fails_before_network:
  "(isOpenAIConfigured penv \<longleftrightarrow> (\<exists>k. penv ''OPENAI_API_KEY'' = Some k \<and> k \<noteq> [] \<and> prefix ''sk-'' k))
   \<and> (isClaudeConfigured penv \<longleftrightarrow> (\<exists>k. penv ''CLAUDE_API_KEY'' = Some k \<and> k \<noteq> [] \<and> prefix ''sk-ant-'' k))
   \<and> (isGrokConfigured penv \<longleftrightarrow> (\<exists>k. penv ''GROK_API_KEY'' = Some k \<and> k \<noteq> [] \<and> prefix ''xai-'' k))
   \<and> (isGeminiConfigured penv \<longleftrightarrow>
        (\<exists>k. penv ''GEMINI_API_KEY'' = Some k \<and> k \<noteq> [] \<and> k \<noteq> ''<YOUR_GEMINI_API_KEY>''))
   \<and> (\<not> isOpenAIConfigured penv \<longrightarrow>
        generateOpenAIResponse penv create msgs model
          = ([], Inl (JsError (not_configured ''OpenAI'')))
        \<and> generateOpenAIStreamingResponse penv create_stream msgs model onComplete st
          = ([Write (Error (not_configured ''OpenAI'')), End], st, Inr None))
   \<and> (\<not> isClaudeConfigured penv \<longrightarrow>
        generateClaudeResponse penv fetch_json msgs model
          = ([], Inl (JsError (not_configured ''Claude'')))
        \<and> generateClaudeStreamingResponse penv fetch_stream parse msgs model onComplete st
          = ([Write (Error (not_configured ''Claude'')), End], st, Inr None))
   \<and> (\<not> isGrokConfigured penv \<longrightarrow>
        generateGrokResponse penv fetch_json msgs model
          = ([], Inl (JsError (not_configured ''Grok'')))
        \<and> generateGrokStreamingResponse penv fetch_stream parse msgs model onComplete st
          = ([Write (Error (not_configured ''Grok'')), End], st, Inr None))
   \<and> (\<not> isGeminiConfigured penv \<longrightarrow>
        generateGeminiResponse penv fs fetch_gemini userContent model imageFiles
          = ([], Inl (JsError (not_configured ''Gemini'')))
        \<and> handleGeminiStreamingRequest penv fs fetch_gemini userContent model imageFiles
          = ([Write (Error (''Gemini API error: '' @ not_configured ''Gemini'')), End],
             Inl (JsError (not_configured ''Gemini''))))
   \<and> generateDeepseekResponse False fetch_json msgs model
        = ([], Inl (JsError (not_configured ''Deepseek'')))
   \<and> generateDeepseekStreamingResponse False fetch_stream parse msgs model onComplete st
        = ([Write (Error (not_configured ''Deepseek'')), End], st, Inr None)"
proof -
  have openai: "\<not> isOpenAIConfigured penv \<Longrightarrow>
        generateOpenAIResponse penv create msgs model
          = ([], Inl (JsError (not_configured ''OpenAI'')))
        \<and> generateOpenAIStreamingResponse penv create_stream msgs model onComplete st
          = ([Write (Error (not_configured ''OpenAI'')), End], st, Inr None)"
    by (simp add: generateOpenAIResponse_def generateOpenAIStreamingResponse_def)
  have claude: "\<not> isClaudeConfigured penv \<Longrightarrow>
        generateClaudeResponse penv fetch_json msgs model
          = ([], Inl (JsError (not_configured ''Claude'')))
        \<and> generateClaudeStreamingResponse penv fetch_stream parse msgs model onComplete st
          = ([Write (Error (not_configured ''Claude'')), End], st, Inr None)"
    by (simp add: generateClaudeResponse_def generateClaudeStreamingResponse_def)
  have grok: "\<not> isGrokConfigured penv \<Longrightarrow>
        generateGrokResponse penv fetch_json msgs model
          = ([], Inl (JsError (not_configured ''Grok'')))
        \<and> generateGrokStreamingResponse penv fetch_stream parse msgs model onComplete st
          = ([Write (Error (not_configured ''Grok'')), End], st, Inr None)"
    by (simp add: generateGrokResponse_def generateGrokStreamingResponse_def)
  have gemini1: "\<not> isGeminiConfigured penv \<Longrightarrow>
        generateGeminiResponse penv fs fetch_gemini userContent model imageFiles
          = ([], Inl (JsError (not_configured ''Gemini'')))"
    by (simp add: generateGeminiResponse_def)
  have gemini2: "\<not> isGeminiConfigured penv \<Longrightarrow>
        handleGeminiStreamingRequest penv fs fetch_gemini userContent model imageFiles
          = ([Write (Error (''Gemini API error: '' @ not_configured ''Gemini'')), End],
             Inl (JsError (not_configured ''Gemini'')))"
    using gemini1 by (simp add: handleGeminiStreamingRequest_def)
  have deepseek1: "generateDeepseekResponse False fetch_json msgs model
        = ([], Inl (JsError (not_configured ''Deepseek'')))"
    by (simp add: generateDeepseekResponse_def)
  have deepseek2: "generateDeepseekStreamingResponse False fetch_stream parse msgs model onComplete st
        = ([Write (Error (not_configured ''Deepseek'')), End], st, Inr None)"
    by (simp add: generateDeepseekStreamingResponse_def)
  show ?thesis
    using isOpenAIConfigured_iff [of penv] isClaudeConfigured_iff [of penv]
      isGrokConfigured_iff [of penv] isGeminiConfigured_iff [of penv]
      openai claude grok gemini1 gemini2 deepseek1 deepseek2
    by blast
qed


theorem unconfigured_adapter_fails_before_network_witness:
  "\<not> isOpenAIConfigured Map.empty \<and> \<not> isClaudeConfigured Map.empty
   \<and> \<not> isGrokConfigured Map.empty \<and> \<not> isGeminiConfigured Map.empty
   \<and> generateOpenAIResponse Map.empty (\<lambda>m ms. Inr ''hi'') [] ''grok-2''
        = ([], Inl (JsError ''OpenAI API key not configured. Please contact administrator.''))
   \<and> generateOpenAIStreamingResponse Map.empty (\<lambda>m ms. Inr ([''hi''], None)) [] ''grok-2'' None ()
        = ([Write (Error ''OpenAI API key not configured. Please contact administrator.''), End],
           (), Inr None)
   \<and> generateClaudeStreamingResponse Map.empty (\<lambda>m ms. Inl (JsError ''down'')) Map.empty []
          ''grok-2'' None ()
        = ([Write (Error ''Claude API key not configured. Please contact administrator.''), End],
           (), Inr None)
   \<and> generateGrokResponse Map.empty (\<lambda>m ms. Inl (JsError ''down'')) [] ''grok-2''
        = ([], Inl (JsError ''Grok API key not configured. Please contact administrator.''))
   \<and> handleGeminiStreamingRequest Map.empty fs_demo gemini_demo ''hi'' ''grok-2'' [cat_png]
        = ([Write (Error ''Gemini API error: Gemini API key not configured. Please contact administrator.''),
            End],
           Inl (JsError ''Gemini API key not configured. Please contact administrator.''))
   \<and> isOpenAIConfigured penv_demo \<and> isClaudeConfigured penv_demo
   \<and> isGrokConfigured penv_demo \<and> isGeminiConfigured penv_demo"
proof -
  have un: "\<not> isOpenAIConfigured Map.empty" "\<not> isClaudeConfigured Map.empty"
      "\<not> isGrokConfigured Map.empty" "\<not> isGeminiConfigured Map.empty"
    by (simp_all add: isOpenAIConfigured_def openai_apiKey_def isClaudeConfigured_def
        claude_apiKey_def isGrokConfigured_def grok_apiKey_def isGeminiConfigured_def
        gemini_apiKey_def env_or_def)
  have cfg: "isOpenAIConfigured penv_demo" "isClaudeConfigured penv_demo"
      "isGrokConfigured penv_demo" "isGeminiConfigured penv_demo"
    by (simp_all add: penv_demo_def isOpenAIConfigured_def openai_apiKey_def
        isClaudeConfigured_def claude_apiKey_def isGrokConfigured_def grok_apiKey_def
        isGeminiConfigured_def gemini_apiKey_def env_or_def startsWith_def)
  note inst = unconfigured_adapter_fails_before_network
        [where penv = Map.empty and create = "\<lambda>m ms. Inr ''hi''"
           and create_stream = "\<lambda>m ms. Inr ([''hi''], None)" and msgs = "[]"
           and model = "''grok-2''" and onComplete = None and st = "()"
           and fetch_stream = "\<lambda>m ms. Inl (JsError ''down'')" and parse = Map.empty
           and fetch_json = "\<lambda>m ms. Inl (JsError ''down'')"
           and fs = fs_demo and fetch_gemini = gemini_demo
           and userContent = "''hi''" and imageFiles = "[cat_png]"]
  show ?thesis
    using un cfg inst by (simp add: not_configured_def)
qed


section \<open>Shape of a streamed reply\<close>

definition chunk_writes :: "string list \<Rightarrow> event list" where
  "chunk_writes cs = map (\<lambda>c. Write (Chunk c)) cs"

lemma chunk_writes_simps [simp]:
  "chunk_writes [] = []" "chunk_writes (c # cs) = Write (Chunk c) # chunk_writes cs"
  "chunk_writes (cs @ ds) = chunk_writes cs @ chunk_writes ds"
  by (simp_all add: chunk_writes_def)

lemma chunks_of_chunk_writes [simp]: "chunks_of (chunk_writes cs) = cs"
  by (induction cs) (simp_all add: chunks_of_Cons)

lemma stream_lines_shape:
  "\<exists>cs. stream_lines ex parse ls acc = (chunk_writes cs, acc @ concat cs)"
proof (induction ls arbitrary: acc)
  case Nil
  have "stream_lines ex parse [] acc = (chunk_writes [], acc @ concat [])" by simp
  then show ?case by blast
next
  case (Cons l ls)
  show ?case
  proof (cases "stream_line ex parse l")
    case None
    with Cons [of acc] show ?thesis by simp
  next
    case (Some c)
    from Cons [of "acc @ c"] obtain cs where
      "stream_lines ex parse ls (acc @ c) = (chunk_writes cs, (acc @ c) @ concat cs)" by blast
    with Some have "stream_lines ex parse (l # ls) acc = (chunk_writes (c # cs), acc @ concat (c # cs))"
      by simp
    then show ?thesis by blast
  qed
qed

lemma read_loop_shape:
  "\<exists>cs. read_loop ex parse chunks acc = (chunk_writes cs, acc @ concat cs)"
proof (induction chunks arbitrary: acc)
  case Nil
  have "read_loop ex parse [] acc = (chunk_writes [], acc @ concat [])" by simp
  then show ?case by blast
next
  case (Cons ch chunks)
  obtain cs1 where 1: "stream_lines ex parse (split_on (CHR 0x0A) ch) acc = (chunk_writes cs1, acc @ concat cs1)"
    using stream_lines_shape by blast
  obtain cs2 where 2: "read_loop ex parse chunks (acc @ concat cs1) = (chunk_writes cs2, (acc @ concat cs1) @ concat cs2)"
    using Cons by blast
  have "read_loop ex parse (ch # chunks) acc = (chunk_writes (cs1 @ cs2), acc @ concat (cs1 @ cs2))"
    using 1 2 by simp
  then show ?case by blast
qed

lemma openai_loop_shape:
  "\<exists>cs. openai_loop contents acc = (chunk_writes cs, acc @ concat cs)"
proof (induction contents arbitrary: acc)
  case Nil
  have "openai_loop [] acc = (chunk_writes [], acc @ concat [])" by simp
  then show ?case by blast
next
  case (Cons c contents)
  show ?case
  proof (cases "c = []")
    case True
    with Cons [of acc] show ?thesis by simp
  next
    case False
    from Cons [of "acc @ c"] obtain cs where
      "openai_loop contents (acc @ c) = (chunk_writes cs, (acc @ c) @ concat cs)" by blast
    with False have "openai_loop (c # contents) acc = (chunk_writes (c # cs), acc @ concat (c # cs))"
      by simp
    then show ?thesis by blast
  qed
qed

text \<open>
  The two ways a streaming adapter that has sent its request ends: the stream completes
  (the chunks, the done event, then the callback with their concatenation), or it breaks
  (the chunks written so far, then one error event, and the exception is thrown).
\<close>

definition completed :: "provider \<Rightarrow> 's on_complete \<Rightarrow> 's \<Rightarrow> string list \<Rightarrow> event list \<times> 's \<times> (js_error + string option)" where
  "completed p cb st cs =
     (Net p # chunk_writes cs @ [Write Done, End] @ fst (run_on_complete cb (concat cs) st),
      snd (run_on_complete cb (concat cs) st), Inr (Some (concat cs)))"

definition broken :: "provider \<Rightarrow> 's \<Rightarrow> string list \<Rightarrow> js_error \<Rightarrow> event list \<times> 's \<times> (js_error + string option)" where
  "broken p st cs err = (Net p # chunk_writes cs @ failed_stream, st, Inl err)"

lemma sse_streaming_shape:
  "(\<exists>cs. sse_streaming p nok ex parse answer cb st = completed p cb st cs)
   \<or> (\<exists>cs err. sse_streaming p nok ex parse answer cb st = broken p st cs err)"
proof (cases answer)
  case (Inl err)
  then have "sse_streaming p nok ex parse answer cb st = broken p st [] err"
    by (simp add: sse_streaming_def broken_def)
  then show ?thesis by blast
next
  case (Inr resp)
  show ?thesis
  proof (cases "ok resp")
    case False
    with Inr have "sse_streaming p nok ex parse answer cb st = broken p st [] (nok resp)"
      by (simp add: sse_streaming_def broken_def)
    then show ?thesis by blast
  next
    case True
    obtain cs where rl: "read_loop ex parse (fst (body resp)) [] = (chunk_writes cs, concat cs)"
      using read_loop_shape [of ex parse "fst (body resp)" "[]"] by auto
    show ?thesis
    proof (cases "snd (body resp)")
      case None
      with Inr True rl have "sse_streaming p nok ex parse answer cb st = completed p cb st cs"
        by (simp add: sse_streaming_def completed_def split: prod.splits)
      then show ?thesis by blast
    next
      case (Some m)
      with Inr True rl have "sse_streaming p nok ex parse answer cb st = broken p st cs (JsError m)"
        by (simp add: sse_streaming_def broken_def)
      then show ?thesis by blast
    qed
  qed
qed

section \<open>Classes of events\<close>

text \<open>
  Subscription resolution and the quota checks; with the premium gate they make up the
  access-control evaluation. Attachment processing is the registration of the uploads
  and every file-system call; a cost is attachment processing or a provider call.
\<close>

definition is_subscription_or_quota :: "event \<Rightarrow> bool" where
  "is_subscription_or_quota e =
     (e = SubscriptionLookup \<or> e = BillingLookup \<or> e = SubscriptionWrite \<or> e = ChatLookup \<or> e = ChatCount)"

definition is_access :: "event \<Rightarrow> bool" where
  "is_access e = (is_subscription_or_quota e \<or> e = PremiumGate)"

definition is_attachment :: "event \<Rightarrow> bool" where
  "is_attachment e = (case e of ProcessUploads \<Rightarrow> True | Stat _ \<Rightarrow> True | ReadFile _ \<Rightarrow> True | _ \<Rightarrow> False)"

definition is_cost :: "event \<Rightarrow> bool" where
  "is_cost e = (is_attachment e \<or> is_net e)"

definition is_fs :: "event \<Rightarrow> bool" where
  "is_fs e = (case e of Stat _ \<Rightarrow> True | ReadFile _ \<Rightarrow> True | _ \<Rightarrow> False)"

text \<open>
  The events of a turn after the premium gate: neither an access-control step nor the
  registration of the uploads.
\<close>
definition is_turn :: "event \<Rightarrow> bool" where
  "is_turn e = (\<not> is_access e \<and> e \<noteq> GetUser \<and> e \<noteq> SetSSEHeaders \<and> e \<noteq> ProcessUploads)"

lemma is_fs_turn: "is_fs e \<Longrightarrow> is_turn e"
  by (cases e) (simp_all add: is_fs_def is_turn_def is_access_def is_subscription_or_quota_def)

lemma readFileContent_fs: "list_all is_fs (fst (readFileContent fs p))"
  by (simp add: readFileContent_def is_fs_def split: option.splits)

lemma text_file_info_fs: "list_all is_fs (fst (text_file_info e f))"
  using readFileContent_fs [of "env_fs e" "path f"]
  by (cases "readFileContent (env_fs e) (path f)")
     (simp add: text_file_info_def Let_def split: option.splits)

lemma text_files_info_fs: "list_all is_fs (fst (text_files_info e fs))"
proof (induction fs)
  case Nil
  show ?case by simp
next
  case (Cons f fs)
  then show ?case
    using text_file_info_fs [of e f]
    by (cases "text_file_info e f"; cases "text_files_info e fs") simp
qed

lemma textFilesContent_fs: "list_all is_fs (fst (textFilesContent e fs))"
  using text_files_info_fs [of e fs]
  by (cases "text_files_info e fs") (simp add: textFilesContent_def)

lemma fileToDataURL_fs: "list_all is_fs (fst (fileToDataURL fs p m))"
  by (simp add: fileToDataURL_def is_fs_def split: option.splits)

lemma claude_image_fs: "list_all is_fs (fst (claude_image fs f))"
  by (simp add: claude_image_def is_fs_def split: option.splits)

lemma gemini_image_fs: "list_all is_fs (fst (gemini_image fs f))"
  by (simp add: gemini_image_def is_fs_def split: option.splits)

lemma data_url_image_fs: "list_all is_fs (fst (data_url_image fs f))"
  using fileToDataURL_fs [of fs "path f" "mimetype f"]
  by (cases "fileToDataURL fs (path f) (mimetype f)")
     (simp add: data_url_image_def is_fs_def split: option.splits)

lemma each_image_fs:
  assumes "\<And>f. list_all is_fs (fst (g f))"
  shows "list_all is_fs (fst (each_image g fs))"
proof (induction fs)
  case Nil
  show ?case by simp
next
  case (Cons f fs)
  then show ?case
    using assms [of f] by (cases "g f"; cases "each_image g fs") simp
qed

lemma prepareClaudeImages_fs: "list_all is_fs (fst (prepareClaudeImages fs files))"
  using each_image_fs [of "claude_image fs" "valid_image_files fs files", OF claude_image_fs]
  by (cases "each_image (claude_image fs) (valid_image_files fs files)")
     (simp add: prepareClaudeImages_def)

lemma prepareImagesForModel_fs: "list_all is_fs (fst (prepareImagesForModel fs files target))"
  using prepareClaudeImages_fs [of fs "valid_image_files fs files"]
    each_image_fs [of "gemini_image fs" "valid_image_files fs files", OF gemini_image_fs]
    each_image_fs [of "data_url_image fs" "valid_image_files fs files", OF data_url_image_fs]
  by (cases "prepareClaudeImages fs (valid_image_files fs files)")
     (simp add: prepareImagesForModel_def Let_def)

lemma validImageContents_fs: "list_all is_fs (fst (validImageContents fs files target))"
  using prepareImagesForModel_fs [of fs files target]
  by (cases "prepareImagesForModel fs files target") (simp add: validImageContents_def)

section \<open>The durable message count\<close>

text \<open>A row whose \<^verbatim>\<open>message_count\<close> is half the number of its stored messages.\<close>

definition counts_turns :: "chat_row \<Rightarrow> bool" where
  "counts_turns r =
     (case messages r of
        Some ms \<Rightarrow> (case message_count r of Some n \<Rightarrow> length ms = 2 * n | None \<Rightarrow> False)
      | None \<Rightarrow> False)"

lemma chats_isUserSubscribed: "chats (snd (snd (isUserSubscribed e st userId))) = chats st"
  by (simp add: isUserSubscribed_def Let_def split: option.splits)

lemma chats_upload_stage: "chats (snd (upload_stage e req st)) = chats st"
  by (simp add: upload_stage_def processUploadedFiles_def Let_def)

lemma chats_init_session: "chats (init_session sid m st) = chats st"
  by (simp add: init_session_def)

lemma chats_select_model: "chats (snd (select_model sid m st)) = chats st"
  by (simp add: select_model_def Let_def)

lemma chats_push_message: "chats (push_message sid m st) = chats st"
  by (simp add: push_message_def)

lemma find_chat_in: "find_chat rows sid userId = Some ec \<Longrightarrow> ec \<in> set rows"
  by (auto simp: find_chat_def find_Some_iff)

lemma lookup_chat_in: "lookup_chat e rows sid userId = Some ec \<Longrightarrow> ec \<in> set rows"
  by (auto simp: lookup_chat_def find_chat_in split: if_splits)

lemma counts_turns_insert:
  "list_all counts_turns rows \<Longrightarrow> counts_turns row \<Longrightarrow> list_all counts_turns (insert_chat row rows)"
  by (simp add: insert_chat_def)

lemma counts_turns_update:
  "list_all counts_turns rows \<Longrightarrow> length ms = 2 * n \<Longrightarrow> list_all counts_turns (update_chat sid ms n rows)"
  by (induction rows) (simp_all add: update_chat_def counts_turns_def)

lemma save_chat_counts_turns:
  assumes "list_all counts_turns (chats st)"
    and "\<And>ec. existingChat = Some ec \<Longrightarrow> counts_turns ec"
  shows "list_all counts_turns (chats (snd (save_chat e sid userId u a existingChat st)))"
proof (cases existingChat)
  case None
  with assms(1) show ?thesis
    by (simp add: save_chat_def counts_turns_insert counts_turns_def)
next
  case (Some ec)
  then have ok: "counts_turns ec" using assms(2) by simp
  then obtain ms n where ec: "messages ec = Some ms" "message_count ec = Some n" "length ms = 2 * n"
    by (auto simp: counts_turns_def split: option.splits)
  have "length (ms @ [Message User (Text u), Message Assistant (Text a)]) = 2 * (n + 1)"
    using ec(3) by simp
  with assms(1) Some ec show ?thesis
    by (simp add: save_chat_def counts_turns_update del: length_append)
qed

lemma saveCompletedChat_counts_turns:
  assumes "list_all counts_turns (chats st)"
    and "\<And>ec. existingChat = Some ec \<Longrightarrow> counts_turns ec"
  shows "list_all counts_turns (chats (snd (saveCompletedChat e sid userId u existingChat a st)))"
  unfolding saveCompletedChat_def Let_def
  by (rule save_chat_counts_turns) (simp_all add: assms chats_push_message)


section \<open>Events of the access stage\<close>

lemma isUserSubscribed_events:
  "list_all is_subscription_or_quota (fst (isUserSubscribed e st userId))"
  by (simp add: isUserSubscribed_def Let_def is_subscription_or_quota_def split: option.splits)

lemma check_quota_events:
  "list_all is_subscription_or_quota (fst (check_quota e rows sub ec userId))"
  by (simp add: check_quota_def is_subscription_or_quota_def split: option.splits)

lemma upload_stage_events: "fst (upload_stage e req st) = (if req_files req \<noteq> [] then [ProcessUploads] else [])"
  by (simp add: upload_stage_def)

lemma sq_not_net: "is_subscription_or_quota ev \<Longrightarrow> \<not> is_net ev"
  by (auto simp: is_subscription_or_quota_def is_net_def)

lemma fs_not_net: "is_fs ev \<Longrightarrow> \<not> is_net ev"
  by (cases ev) (simp_all add: is_fs_def is_net_def)

lemma list_all_not_net_sq: "list_all is_subscription_or_quota evs \<Longrightarrow> \<not> list_ex is_net evs"
  by (induction evs) (auto dest: sq_not_net)

lemma list_all_not_net_fs: "list_all is_fs evs \<Longrightarrow> \<not> list_ex is_net evs"
  by (induction evs) (auto dest: fs_not_net)


section \<open>Outcomes of a streaming turn\<close>

definition is_provider_io :: "event \<Rightarrow> bool" where
  "is_provider_io ev = (is_net ev \<or> is_fs ev)"

definition is_error_end :: "event \<Rightarrow> bool" where
  "is_error_end ev = (case ev of Write (Error _) \<Rightarrow> True | End \<Rightarrow> True | _ \<Rightarrow> False)"

text \<open>
  The two ways a streaming turn that reached the dispatch ends. Done: provider and file
  events, the chunks, the done event, then the save of the concatenated chunks. Failed:
  provider and file events, the chunks written so far, then an error event and the end
  of the response, after which only error events and ends of the response follow, and
  the state is as before.
\<close>

definition error_first :: "event list \<Rightarrow> bool" where
  "error_first errs = (\<exists>m rest. errs = Write (Error m) # End # rest)"

definition turn_done ::
  "(string \<Rightarrow> server_state \<Rightarrow> event list \<times> server_state) \<Rightarrow> server_state \<Rightarrow> event list \<times> server_state \<Rightarrow> bool" where
  "turn_done save st out =
     (\<exists>pre cs. list_all is_provider_io pre
        \<and> out = (pre @ chunk_writes cs @ [Write Done, End] @ fst (save (concat cs) st),
                 snd (save (concat cs) st)))"

definition turn_failed :: "server_state \<Rightarrow> event list \<times> server_state \<Rightarrow> bool" where
  "turn_failed st out =
     (\<exists>pre cs errs. list_all is_provider_io pre \<and> list_all is_error_end errs
        \<and> error_first errs \<and> out = (pre @ chunk_writes cs @ errs, st))"

text \<open>The outcome of a streaming adapter that is not configured.\<close>

definition refused :: "string \<Rightarrow> 's \<Rightarrow> event list \<times> 's \<times> (js_error + string option)" where
  "refused pname st = ([Write (Error (not_configured pname)), End], st, Inr None)"

lemma claude_outcome:
  "generateClaudeStreamingResponse penv fetch parse msgs m cb st = refused ''Claude'' st
   \<or> (\<exists>cs. generateClaudeStreamingResponse penv fetch parse msgs m cb st = completed Claude cb st cs)
   \<or> (\<exists>cs err. generateClaudeStreamingResponse penv fetch parse msgs m cb st = broken Claude st cs err)"
  using sse_streaming_shape [of Claude "api_error ''Claude''" claude_delta parse "fetch (getClaudeModelName m) msgs" cb st]
  by (simp add: generateClaudeStreamingResponse_def refused_def)

lemma grok_outcome:
  "generateGrokStreamingResponse penv fetch parse msgs m cb st = refused ''Grok'' st
   \<or> (\<exists>cs. generateGrokStreamingResponse penv fetch parse msgs m cb st = completed Grok cb st cs)
   \<or> (\<exists>cs err. generateGrokStreamingResponse penv fetch parse msgs m cb st = broken Grok st cs err)"
  using sse_streaming_shape [of Grok "api_error ''Grok''" choices_delta parse "fetch (getGrokModelName m) msgs" cb st]
  by (simp add: generateGrokStreamingResponse_def refused_def)

lemma openai_outcome:
  "generateOpenAIStreamingResponse penv create msgs m cb st = refused ''OpenAI'' st
   \<or> (\<exists>cs. generateOpenAIStreamingResponse penv create msgs m cb st = completed OpenAI cb st cs)
   \<or> (\<exists>cs err. generateOpenAIStreamingResponse penv create msgs m cb st = broken OpenAI st cs err)"
proof (cases "isOpenAIConfigured penv")
  case False
  then show ?thesis by (simp add: generateOpenAIStreamingResponse_def refused_def)
next
  case True
  show ?thesis
  proof (cases "create m msgs")
    case (Inl err)
    with True have "generateOpenAIStreamingResponse penv create msgs m cb st = broken OpenAI st [] err"
      by (simp add: generateOpenAIStreamingResponse_def broken_def)
    then show ?thesis by blast
  next
    case (Inr r)
    obtain contents thrown where r: "r = (contents, thrown)" by (cases r)
    obtain cs where l: "openai_loop contents [] = (chunk_writes cs, concat cs)"
      using openai_loop_shape [of contents "[]"] by auto
    show ?thesis
    proof (cases thrown)
      case None
      with True Inr r l have "generateOpenAIStreamingResponse penv create msgs m cb st = completed OpenAI cb st cs"
        by (simp add: generateOpenAIStreamingResponse_def completed_def split: prod.splits)
      then show ?thesis by blast
    next
      case (Some x)
      with True Inr r l have "generateOpenAIStreamingResponse penv create msgs m cb st = broken OpenAI st cs (JsError x)"
        by (simp add: generateOpenAIStreamingResponse_def broken_def)
      then show ?thesis by blast
    qed
  qed
qed


lemma processImagesForGemini_io: "list_all is_provider_io (fst (processImagesForGemini fs files))"
proof (induction files)
  case Nil
  show ?case by simp
next
  case (Cons f files)
  then show ?case
    by (cases "processImagesForGemini fs files")
       (simp add: gemini_inline_def is_provider_io_def is_fs_def)
qed

lemma generateGeminiResponse_io:
  "list_all is_provider_io (fst (generateGeminiResponse penv fs fetch uc m imgs))"
proof (cases "isGeminiConfigured penv")
  case False
  then show ?thesis by (simp add: generateGeminiResponse_def)
next
  case True
  have net: "is_provider_io (Net Gemini)" by (simp add: is_provider_io_def is_net_def)
  show ?thesis
    using True net processImagesForGemini_io [of fs imgs]
    by (cases "processImagesForGemini fs imgs") (simp add: generateGeminiResponse_def Let_def)
qed

lemma error_end_simps [simp]:
  "is_error_end (Write (Error m))" "is_error_end End"
  by (simp_all add: is_error_end_def)

lemma list_all_error_end [simp]:
  "list_all is_error_end (sse_error m)" "list_all is_error_end failed_stream"
  by (simp_all add: sse_error_def failed_stream_def)

lemma error_first_simps [simp]:
  "error_first (sse_error m)" "error_first failed_stream" "error_first (failed_stream @ errs)"
  "error_first [Write (Error m), End]"
  by (simp_all add: error_first_def sse_error_def failed_stream_def)

lemma turn_failedI:
  "list_all is_provider_io pre \<Longrightarrow> list_all is_error_end errs \<Longrightarrow> error_first errs \<Longrightarrow>
   out = (pre @ chunk_writes cs @ errs, st) \<Longrightarrow> turn_failed st out"
  unfolding turn_failed_def by blast

lemma turn_doneI:
  "list_all is_provider_io pre \<Longrightarrow>
   out = (pre @ chunk_writes cs @ [Write Done, End] @ fst (save (concat cs) st), snd (save (concat cs) st))
   \<Longrightarrow> turn_done save st out"
  unfolding turn_done_def by blast

lemma net_io [simp]: "is_provider_io (Net p)"
  by (simp add: is_provider_io_def is_net_def)

text \<open>
  What the route makes of the three outcomes of an adapter whose exceptions it catches.
\<close>

lemma caught_outcome:
  assumes "out = refused pname st \<or> (\<exists>cs. out = completed p (Some save) st cs)
           \<or> (\<exists>cs err. out = broken p st cs err)"
  shows "turn_done save st (fst out, fst (snd out)) \<or> turn_failed st (fst out, fst (snd out))"
proof -
  consider (r) "out = refused pname st" | (c) cs where "out = completed p (Some save) st cs"
    | (b) cs err where "out = broken p st cs err"
    using assms by blast
  then show ?thesis
  proof cases
    case r
    have "turn_failed st (fst out, fst (snd out))"
      by (rule turn_failedI [where pre = "[]" and cs = "[]"
            and errs = "[Write (Error (not_configured pname)), End]"])
         (simp_all add: r refused_def)
    then show ?thesis by blast
  next
    case c
    have "turn_done save st (fst out, fst (snd out))"
      by (rule turn_doneI [where pre = "[Net p]" and cs = cs])
         (simp_all add: c completed_def run_on_complete_def)
    then show ?thesis by blast
  next
    case b
    have "turn_failed st (fst out, fst (snd out))"
      by (rule turn_failedI [where pre = "[Net p]" and cs = cs and errs = failed_stream])
         (simp_all add: b broken_def)
    then show ?thesis by blast
  qed
qed

lemma stream_dispatch_outcome:
  "turn_done (saveCompletedChat e sid (ac_userId ac) uc (ac_existingChat ac)) st
     (stream_dispatch e st sid ac uc imgs msgs)
   \<or> turn_done (save_gemini_turn e sid (ac_userId ac) uc (ac_existingChat ac)) st
     (stream_dispatch e st sid ac uc imgs msgs)
   \<or> turn_failed st (stream_dispatch e st sid ac uc imgs msgs)"
proof -
  let ?m = "ac_selectedModel ac"
  let ?save = "saveCompletedChat e sid (ac_userId ac) uc (ac_existingChat ac)"
  consider (gemini) "includes_str ?m ''gemini''"
    | (claude) "\<not> includes_str ?m ''gemini''" "includes_str ?m ''claude''"
    | (grok) "\<not> includes_str ?m ''gemini''" "\<not> includes_str ?m ''claude''" "includes_str ?m ''grok''"
    | (openai) "\<not> includes_str ?m ''gemini''" "\<not> includes_str ?m ''claude''" "\<not> includes_str ?m ''grok''"
    by blast
  then show ?thesis
  proof cases
    case gemini
    let ?uc = "if uc = [] then ''Please analyze these images.'' else uc"
    obtain evs r where g: "generateGeminiResponse (env_penv e) (env_fs e) (env_gemini e) ?uc ?m imgs = (evs, r)"
      by (cases "generateGeminiResponse (env_penv e) (env_fs e) (env_gemini e) ?uc ?m imgs")
    have io: "list_all is_provider_io evs"
      using generateGeminiResponse_io [of "env_penv e" "env_fs e" "env_gemini e" ?uc ?m imgs] g by simp
    show ?thesis
    proof (cases r)
      case (Inl err)
      have "turn_failed st (stream_dispatch e st sid ac uc imgs msgs)"
        by (rule turn_failedI [where pre = evs and cs = "[]"
              and errs = "[Write (Error (''Gemini API error: '' @ err_message err)), End]"])
           (simp_all add: io stream_dispatch_def gemini g Inl handleGeminiStreamingRequest_def Let_def)
      then show ?thesis by blast
    next
      case (Inr botReply)
      have "turn_done (save_gemini_turn e sid (ac_userId ac) uc (ac_existingChat ac)) st
              (stream_dispatch e st sid ac uc imgs msgs)"
        by (rule turn_doneI [where pre = evs and cs = "[botReply]"])
           (simp_all add: io stream_dispatch_def gemini g Inr handleGeminiStreamingRequest_def Let_def
              split: prod.splits)
      then show ?thesis by blast
    qed
  next
    case claude
    let ?out = "generateClaudeStreamingResponse (env_penv e) (env_claude_stream e) (env_parse e) msgs ?m
                  (Some ?save) st"
    have d: "stream_dispatch e st sid ac uc imgs msgs = (fst ?out, fst (snd ?out))"
      using claude by (simp add: stream_dispatch_def Let_def split: prod.splits)
    show ?thesis
      unfolding d
      using caught_outcome [OF claude_outcome [of "env_penv e" "env_claude_stream e" "env_parse e" msgs ?m "Some ?save" st]]
      by blast
  next
    case grok
    let ?out = "generateGrokStreamingResponse (env_penv e) (env_grok_stream e) (env_parse e) msgs ?m
                  (Some ?save) st"
    have d: "stream_dispatch e st sid ac uc imgs msgs = (fst ?out, fst (snd ?out))"
      using grok by (simp add: stream_dispatch_def Let_def split: prod.splits)
    show ?thesis
      unfolding d
      using caught_outcome [OF grok_outcome [of "env_penv e" "env_grok_stream e" "env_parse e" msgs ?m "Some ?save" st]]
      by blast
  next
    case openai
    let ?out = "generateOpenAIStreamingResponse (env_penv e) (env_openai_stream e) msgs ?m (Some ?save) st"
    consider (r) "?out = refused ''OpenAI'' st" | (c) cs where "?out = completed OpenAI (Some ?save) st cs"
      | (b) cs err where "?out = broken OpenAI st cs err"
      using openai_outcome [of "env_penv e" "env_openai_stream e" msgs ?m "Some ?save" st] by blast
    then show ?thesis
    proof cases
      case r
      have "turn_failed st (stream_dispatch e st sid ac uc imgs msgs)"
        by (rule turn_failedI [where pre = "[]" and cs = "[]"
              and errs = "[Write (Error (not_configured ''OpenAI'')), End]"])
           (simp_all add: stream_dispatch_def openai r refused_def Let_def)
      then show ?thesis by blast
    next
      case c
      have "turn_done ?save st (stream_dispatch e st sid ac uc imgs msgs)"
        by (rule turn_doneI [where pre = "[Net OpenAI]" and cs = cs])
           (simp_all add: stream_dispatch_def openai c completed_def run_on_complete_def Let_def)
      then show ?thesis by blast
    next
      case b
      have "turn_failed st (stream_dispatch e st sid ac uc imgs msgs)"
        by (rule turn_failedI [where pre = "[Net OpenAI]" and cs = cs
              and errs = "failed_stream @ sse_error ''Failed to generate AI response''"])
           (simp_all add: stream_dispatch_def openai b broken_def Let_def)
      then show ?thesis by blast
    qed
  qed
qed


text \<open>
  Every event of a route up to and including its premium gate is one of: the SSE
  headers, the identity lookup, subscription and quota steps, the registration of the
  uploads, a file-system call, the premium gate, or a reply that rejects the request.
\<close>

definition is_front :: "event \<Rightarrow> bool" where
  "is_front ev =
     (ev = SetSSEHeaders \<or> ev = GetUser \<or> is_subscription_or_quota ev \<or> ev = ProcessUploads
      \<or> ev = PremiumGate \<or> is_fs ev \<or> is_error_end ev
      \<or> (case ev of StatusJson c m \<Rightarrow> True | _ \<Rightarrow> False))"

lemma front_simps [simp]:
  "is_front SetSSEHeaders" "is_front GetUser" "is_front ProcessUploads" "is_front PremiumGate"
  "is_front ChatLookup" "is_front (StatusJson c m)" "is_front (Write (Error m))" "is_front End"
  by (simp_all add: is_front_def is_subscription_or_quota_def)

lemma front_sse_error [simp]: "list_all is_front (sse_error m)"
  by (simp add: sse_error_def)

lemma front_sq: "list_all is_subscription_or_quota evs \<Longrightarrow> list_all is_front evs"
  by (induction evs) (simp_all add: is_front_def)

lemma front_fs: "list_all is_fs evs \<Longrightarrow> list_all is_front evs"
  by (induction evs) (simp_all add: is_front_def)

lemma front_not_net: "list_all is_front evs \<Longrightarrow> \<not> list_ex is_net evs"
proof (induction evs)
  case Nil
  show ?case by simp
next
  case (Cons ev evs)
  then have "is_front ev" by simp
  then have "\<not> is_net ev"
    by (cases ev)
       (simp_all add: is_net_def is_front_def is_subscription_or_quota_def is_fs_def is_error_end_def)
  with Cons show ?case by simp
qed

lemma front_quiet: "list_all is_front evs \<Longrightarrow> chunks_of evs = [] \<and> Write Done \<notin> set evs"
proof (induction evs)
  case Nil
  show ?case by simp
next
  case (Cons ev evs)
  then have f: "is_front ev" by simp
  have 1: "ev \<noteq> Write Done"
    using f by (auto simp: is_front_def is_subscription_or_quota_def is_fs_def is_error_end_def)
  have 2: "chunks_of [ev] = []"
    using f by (cases ev) (auto simp: chunks_of_def is_front_def is_subscription_or_quota_def is_fs_def
        is_error_end_def split: sse.splits)
  have "chunks_of (ev # evs) = chunks_of [ev] @ chunks_of evs"
    using chunks_of_append [of "[ev]" evs] by simp
  with Cons 1 2 show ?case by simp
qed

lemma stream_gate_front: "list_all is_front (fst (stream_gate e st req uid sub ec))"
  using upload_stage_events [of e req st]
  by (cases "upload_stage e req st")
     (simp add: stream_gate_def Let_def split: prod.splits if_splits)

lemma stream_quota_front: "list_all is_front (fst (stream_quota e st req uid))"
proof -
  obtain evs1 sub st1 where s: "isUserSubscribed e st uid = (evs1, sub, st1)"
    by (cases "isUserSubscribed e st uid") auto
  let ?ec = "lookup_chat e (chats st1) (req_sessionId req) uid"
  obtain evs2 q where q: "check_quota e (chats st1) sub ?ec uid = (evs2, q)"
    by (cases "check_quota e (chats st1) sub ?ec uid")
  obtain evs3 st4 r where g: "stream_gate e st1 req uid sub ?ec = (evs3, st4, r)"
    by (cases "stream_gate e st1 req uid sub ?ec") auto
  have f1: "list_all is_front evs1"
    using isUserSubscribed_events [of e st uid] s by (simp add: front_sq)
  have f2: "list_all is_front evs2"
    using check_quota_events [of e "chats st1" sub ?ec uid] q by (simp add: front_sq)
  have f3: "list_all is_front evs3"
    using stream_gate_front [of e st1 req uid sub ?ec] g by simp
  show ?thesis
    using s q g f1 f2 f3 by (cases q) (simp_all add: stream_quota_def Let_def)
qed

lemma stream_access_front: "list_all is_front (fst (stream_access e st req token))"
  using stream_quota_front [of e st req]
  by (cases "env_getUser e token") (simp_all add: stream_access_def)

lemma chat_gate_front: "list_all is_front (fst (chat_gate e st req uid sub ec))"
proof -
  obtain evs3 st2 where u: "upload_stage e req st = (evs3, st2)"
    by (cases "upload_stage e req st")
  let ?tf = "filter (\<lambda>f. \<not> is_image f) (req_files req)"
  obtain evs_t tc where t: "textFilesContent e ?tf = (evs_t, tc)"
    by (cases "textFilesContent e ?tf")
  have f3: "list_all is_front evs3"
    using upload_stage_events [of e req st] u by (simp split: if_splits)
  have ft: "list_all is_front evs_t"
    using textFilesContent_fs [of e ?tf] t by (simp add: front_fs)
  show ?thesis
    using u t f3 ft by (simp add: chat_gate_def Let_def split: prod.splits)
qed

lemma chat_quota_front: "list_all is_front (fst (chat_quota e st req uid))"
proof -
  obtain evs1 sub st1 where s: "isUserSubscribed e st uid = (evs1, sub, st1)"
    by (cases "isUserSubscribed e st uid") auto
  let ?ec = "lookup_chat e (chats st1) (req_sessionId req) uid"
  obtain evs2 q where q: "check_quota e (chats st1) sub ?ec uid = (evs2, q)"
    by (cases "check_quota e (chats st1) sub ?ec uid")
  obtain evs3 st4 r where g: "chat_gate e st1 req uid sub ?ec = (evs3, st4, r)"
    by (cases "chat_gate e st1 req uid sub ?ec") auto
  have f1: "list_all is_front evs1"
    using isUserSubscribed_events [of e st uid] s by (simp add: front_sq)
  have f2: "list_all is_front evs2"
    using check_quota_events [of e "chats st1" sub ?ec uid] q by (simp add: front_sq)
  have f3: "list_all is_front evs3"
    using chat_gate_front [of e st1 req uid sub ?ec] g by simp
  show ?thesis
    using s q g f1 f2 f3 by (cases q) (simp_all add: chat_quota_def Let_def)
qed

lemma chat_access_front: "list_all is_front (fst (chat_access e st req token))"
  using chat_quota_front [of e st req]
  by (cases "env_getUser e token") (simp_all add: chat_access_def)


section \<open>Premium models\<close>

text \<open>
  The model a request asks for: its \<^verbatim>\<open>model\<close> field; without one, the model the
  session used last; the default for a session with no conversation in memory or no
  model on file.
\<close>

definition requested_model :: "server_state \<Rightarrow> request \<Rightarrow> string" where
  "requested_model st req =
     (if req_model req \<noteq> [] then req_model req
      else if userConversations st (req_sessionId req) = None then ''gpt-3.5-turbo''
      else (case userSelectedModel st (req_sessionId req) of
              Some m \<Rightarrow> if m = [] then ''gpt-3.5-turbo'' else m
            | None \<Rightarrow> ''gpt-3.5-turbo''))"

lemma select_model_init:
  "fst (select_model (req_sessionId req) (req_model req)
          (init_session (req_sessionId req) (req_model req) st)) = requested_model st req"
  by (simp add: select_model_def init_session_def requested_model_def Let_def split: option.splits)

lemma select_model_pushed:
  "fst (select_model (req_sessionId req) (req_model req)
          (push_message (req_sessionId req) msg
             (init_session (req_sessionId req) (req_model req) st))) = requested_model st req"
  by (simp add: select_model_def init_session_def push_message_def requested_model_def Let_def
        split: option.splits)

lemma session_upload_stage:
  "userConversations (snd (upload_stage e req st)) = userConversations st"
  "userSelectedModel (snd (upload_stage e req st)) = userSelectedModel st"
  by (simp_all add: upload_stage_def processUploadedFiles_def Let_def)

lemma session_isUserSubscribed:
  "userConversations (snd (snd (isUserSubscribed e st uid))) = userConversations st"
  "userSelectedModel (snd (snd (isUserSubscribed e st uid))) = userSelectedModel st"
  by (simp_all add: isUserSubscribed_def Let_def split: option.splits)

lemma requested_model_upload_stage:
  "requested_model (snd (upload_stage e req' st)) req = requested_model st req"
  unfolding requested_model_def by (simp only: session_upload_stage)

lemma requested_model_isUserSubscribed:
  "requested_model (snd (snd (isUserSubscribed e st uid))) req = requested_model st req"
  unfolding requested_model_def by (simp only: session_isUserSubscribed)

lemma stream_gate_denied:
  assumes "isPremiumModel (env_toLowerCase e) (requested_model st req)"
  shows "\<exists>pre st'. stream_gate e st req uid False ec = (pre @ sse_error premium_denied, st', Replied)"
proof -
  obtain evs3 st2 where u: "upload_stage e req st = (evs3, st2)"
    by (cases "upload_stage e req st")
  let ?st3 = "init_session (req_sessionId req) (req_model req) st2"
  obtain m st4 where sm: "select_model (req_sessionId req) (req_model req) ?st3 = (m, st4)"
    by (cases "select_model (req_sessionId req) (req_model req) ?st3")
  have "m = requested_model st2 req"
    using select_model_init [of req st2] sm by simp
  then have "m = requested_model st req"
    using requested_model_upload_stage [of e req st req] u by simp
  with assms u sm
  have "stream_gate e st req uid False ec = ((evs3 @ [PremiumGate]) @ sse_error premium_denied, st4, Replied)"
    by (simp add: stream_gate_def Let_def)
  then show ?thesis by blast
qed

lemma chat_gate_denied:
  assumes "isPremiumModel (env_toLowerCase e) (requested_model st req)"
  shows "\<exists>pre st'. chat_gate e st req uid False ec = (pre @ [StatusJson 403 premium_denied], st', Replied)"
proof -
  obtain evs3 st2 where u: "upload_stage e req st = (evs3, st2)"
    by (cases "upload_stage e req st")
  let ?tf = "filter (\<lambda>f. \<not> is_image f) (req_files req)"
  obtain evs_t tc where t: "textFilesContent e ?tf = (evs_t, tc)"
    by (cases "textFilesContent e ?tf")
  let ?st3 = "init_session (req_sessionId req) (req_model req) st2"
  let ?uc = "user_content (req_message req) tc"
  let ?userContent = "if ?uc = [] \<and> (filter is_image (req_files req) \<noteq> [] \<or> ?tf \<noteq> [])
                      then ''Please analyze the attached files.'' else ?uc"
  let ?st4 = "push_message (req_sessionId req) (Message User (Text ?userContent)) ?st3"
  obtain m st5 where sm: "select_model (req_sessionId req) (req_model req) ?st4 = (m, st5)"
    by (cases "select_model (req_sessionId req) (req_model req) ?st4")
  have "m = requested_model st2 req"
    using select_model_pushed [of req "Message User (Text ?userContent)" st2] sm by simp
  then have "m = requested_model st req"
    using requested_model_upload_stage [of e req st req] u by simp
  with assms u t sm
  have "chat_gate e st req uid False ec
          = ((evs3 @ evs_t @ [PremiumGate]) @ [StatusJson 403 premium_denied], st5, Replied)"
    by (simp add: chat_gate_def Let_def)
  then show ?thesis by blast
qed

lemma stream_quota_denied:
  assumes "\<not> fst (snd (isUserSubscribed e st uid))"
    "isPremiumModel (env_toLowerCase e) (requested_model st req)"
  shows "\<exists>pre msg st'. stream_quota e st req uid = (pre @ sse_error msg, st', Replied)
           \<and> msg \<in> {stream_new_chat_denied, stream_messages_denied, premium_denied}"
proof -
  obtain evs1 st1 where s: "isUserSubscribed e st uid = (evs1, False, st1)"
    using assms(1) by (cases "isUserSubscribed e st uid") auto
  have p1: "isPremiumModel (env_toLowerCase e) (requested_model st1 req)"
    using requested_model_isUserSubscribed [of e st uid req] s assms(2) by simp
  let ?ec = "lookup_chat e (chats st1) (req_sessionId req) uid"
  obtain evs2 q where q: "check_quota e (chats st1) False ?ec uid = (evs2, q)"
    by (cases "check_quota e (chats st1) False ?ec uid")
  let ?pre = "[SetSSEHeaders, GetUser] @ evs1 @ [ChatLookup] @ evs2"
  show ?thesis
  proof (cases q)
    case QuotaOk
    obtain pre3 st4 where g: "stream_gate e st1 req uid False ?ec = (pre3 @ sse_error premium_denied, st4, Replied)"
      using stream_gate_denied [OF p1] by blast
    have "stream_quota e st req uid = ((?pre @ pre3) @ sse_error premium_denied, st4, Replied)"
      using s q QuotaOk g by (simp add: stream_quota_def Let_def)
    then show ?thesis by blast
  next
    case QuotaNewChat
    have "stream_quota e st req uid = (?pre @ sse_error stream_new_chat_denied, st1, Replied)"
      using s q QuotaNewChat by (simp add: stream_quota_def Let_def)
    then show ?thesis by blast
  next
    case QuotaMessages
    have "stream_quota e st req uid = (?pre @ sse_error stream_messages_denied, st1, Replied)"
      using s q QuotaMessages by (simp add: stream_quota_def Let_def)
    then show ?thesis by blast
  qed
qed

lemma chat_quota_denied:
  assumes "\<not> fst (snd (isUserSubscribed e st uid))"
    "isPremiumModel (env_toLowerCase e) (requested_model st req)"
  shows "\<exists>pre msg st'. chat_quota e st req uid = (pre @ [StatusJson 403 msg], st', Replied)
           \<and> msg \<in> {new_chat_denied, messages_denied, premium_denied}"
proof -
  obtain evs1 st1 where s: "isUserSubscribed e st uid = (evs1, False, st1)"
    using assms(1) by (cases "isUserSubscribed e st uid") auto
  have p1: "isPremiumModel (env_toLowerCase e) (requested_model st1 req)"
    using requested_model_isUserSubscribed [of e st uid req] s assms(2) by simp
  let ?ec = "lookup_chat e (chats st1) (req_sessionId req) uid"
  obtain evs2 q where q: "check_quota e (chats st1) False ?ec uid = (evs2, q)"
    by (cases "check_quota e (chats st1) False ?ec uid")
  let ?pre = "[GetUser] @ evs1 @ [ChatLookup] @ evs2"
  show ?thesis
  proof (cases q)
    case QuotaOk
    obtain pre3 st4 where g: "chat_gate e st1 req uid False ?ec = (pre3 @ [StatusJson 403 premium_denied], st4, Replied)"
      using chat_gate_denied [OF p1] by blast
    have "chat_quota e st req uid = ((?pre @ pre3) @ [StatusJson 403 premium_denied], st4, Replied)"
      using s q QuotaOk g by (simp add: chat_quota_def Let_def)
    then show ?thesis by blast
  next
    case QuotaNewChat
    have "chat_quota e st req uid = (?pre @ [StatusJson 403 new_chat_denied], st1, Replied)"
      using s q QuotaNewChat by (simp add: chat_quota_def Let_def)
    then show ?thesis by blast
  next
    case QuotaMessages
    have "chat_quota e st req uid = (?pre @ [StatusJson 403 messages_denied], st1, Replied)"
      using s q QuotaMessages by (simp add: chat_quota_def Let_def)
    then show ?thesis by blast
  qed
qed

lemma stream_handler_replied:
  "stream_intake req = Inr token \<Longrightarrow> stream_access e st req token = (evs, st1, Replied) \<Longrightarrow>
   stream_handler e st req = (evs, st1)"
  by (simp add: stream_handler_def)

lemma chat_handler_replied:
  "chat_intake req = Inr token \<Longrightarrow> chat_access e st req token = (evs, st1, Replied) \<Longrightarrow>
   chat_handler e st req = (evs, st1)"
  by (simp add: chat_handler_def)

lemma isPremiumModel_iff:
  "isPremiumModel lower m
   \<longleftrightarrow> (\<exists>pm \<in> {''gpt-4'', ''claude'', ''grok'', ''deepseek''}. sublist pm (lower m))"
  by (simp add: isPremiumModel_def premiumModels_def includes_str_sublist Let_def)

lemma sublist_map_iff: "sublist p (map f m) \<longleftrightarrow> (\<exists>u. sublist u m \<and> map f u = p)"
proof
  assume "sublist p (map f m)"
  then obtain ps ss where "map f m = ps @ p @ ss" by (auto simp: sublist_def)
  then obtain m1 u m2 where "m = m1 @ u @ m2" "map f u = p"
    by (auto simp: map_eq_append_conv append_eq_map_conv)
  then show "\<exists>u. sublist u m \<and> map f u = p" by (auto simp: sublist_def)
next
  assume "\<exists>u. sublist u m \<and> map f u = p"
  then obtain u ps ss where "m = ps @ u @ ss" "map f u = p" by (auto simp: sublist_def)
  then have "map f m = map f ps @ p @ map f ss" by simp
  then show "sublist p (map f m)" unfolding sublist_def by blast
qed

text \<open>
  C3. For every lower-casing function, a model id is classified premium iff its
  lower-cased form contains one of the markers \<^verbatim>\<open>gpt-4\<close>, \<^verbatim>\<open>claude\<close>, \<^verbatim>\<open>grok\<close>,
  \<^verbatim>\<open>deepseek\<close> as a substring; where the id is lower-cased letter by letter, as an id of
  ASCII characters is, that is iff the id contains a marker up to the case of its
  letters. When an authenticated user who is not subscribed asks for a premium-classified
  model, in the request or by the model on file for the session, both routes reject the
  request, whatever the state of the quotas: the one-shot route replies with status 403,
  the streaming route, whose status line is already sent, ends the stream with one error
  event; the reason is the premium refusal, or a quota refusal when a quota is exhausted
  as well. No provider has been called when the rejection is sent.
\<close>

theorem premium_model_requires_subscription:
  assumes "env_getUser e token = AuthUser uid"
    and "\<not> fst (snd (isUserSubscribed e st uid))"
    and "isPremiumModel (env_toLowerCase e) (requested_model st req)"
  shows "(isPremiumModel lower m
            \<longleftrightarrow> (\<exists>pm \<in> {''gpt-4'', ''claude'', ''grok'', ''deepseek''}. sublist pm (lower m)))
    \<and> (lower m = map lower_char m \<longrightarrow>
         (isPremiumModel lower m
            \<longleftrightarrow> (\<exists>pm \<in> {''gpt-4'', ''claude'', ''grok'', ''deepseek''}.
                   \<exists>u. sublist u m \<and> map lower_char u = pm)))
    \<and> (chat_intake req = Inr token \<longrightarrow>
         (\<exists>pre msg. fst (chat_handler e st req) = pre @ [StatusJson 403 msg]
            \<and> msg \<in> {new_chat_denied, messages_denied, premium_denied})
         \<and> \<not> list_ex is_net (fst (chat_handler e st req)))
    \<and> (stream_intake req = Inr token \<longrightarrow>
         (\<exists>pre msg. fst (stream_handler e st req) = pre @ [Write (Error msg), End]
            \<and> msg \<in> {stream_new_chat_denied, stream_messages_denied, premium_denied})
         \<and> \<not> list_ex is_net (fst (stream_handler e st req)))"
proof (intro conjI impI)
  show "isPremiumModel lower m
          \<longleftrightarrow> (\<exists>pm \<in> {''gpt-4'', ''claude'', ''grok'', ''deepseek''}. sublist pm (lower m))"
    by (rule isPremiumModel_iff)
next
  assume "lower m = map lower_char m"
  then show "isPremiumModel lower m
            \<longleftrightarrow> (\<exists>pm \<in> {''gpt-4'', ''claude'', ''grok'', ''deepseek''}.
                   \<exists>u. sublist u m \<and> map lower_char u = pm)"
    unfolding isPremiumModel_iff by (simp only: sublist_map_iff)
next
  assume i: "chat_intake req = Inr token"
  obtain pre msg st' where q: "chat_quota e st req uid = (pre @ [StatusJson 403 msg], st', Replied)"
    and m: "msg \<in> {new_chat_denied, messages_denied, premium_denied}"
    using chat_quota_denied [OF assms(2,3)] by blast
  have a: "chat_access e st req token = (pre @ [StatusJson 403 msg], st', Replied)"
    using assms(1) q by (simp add: chat_access_def)
  have h: "chat_handler e st req = (pre @ [StatusJson 403 msg], st')"
    by (rule chat_handler_replied [OF i a])
  show "\<exists>pre msg. fst (chat_handler e st req) = pre @ [StatusJson 403 msg]
            \<and> msg \<in> {new_chat_denied, messages_denied, premium_denied}"
    using h m by auto
  show "\<not> list_ex is_net (fst (chat_handler e st req))"
    using front_not_net [OF chat_access_front [of e st req token]] a h by simp
next
  assume i: "stream_intake req = Inr token"
  obtain pre msg st' where q: "stream_quota e st req uid = (pre @ sse_error msg, st', Replied)"
    and m: "msg \<in> {stream_new_chat_denied, stream_messages_denied, premium_denied}"
    using stream_quota_denied [OF assms(2,3)] by blast
  have a: "stream_access e st req token = (pre @ sse_error msg, st', Replied)"
    using assms(1) q by (simp add: stream_access_def)
  have h: "stream_handler e st req = (pre @ sse_error msg, st')"
    by (rule stream_handler_replied [OF i a])
  show "\<exists>pre msg. fst (stream_handler e st req) = pre @ [Write (Error msg), End]
            \<and> msg \<in> {stream_new_chat_denied, stream_messages_denied, premium_denied}"
    using h m by (auto simp: sse_error_def)
  show "\<not> list_ex is_net (fst (stream_handler e st req))"
    using front_not_net [OF stream_access_front [of e st req token]] a h by simp
qed


text \<open>
  A concrete request: a valid token of a user with no profile row, no chats on file, and
  providers that answer.
\<close>

definition env_demo :: env where
  "env_demo = \<lparr>env_penv = penv_demo, env_fs = fs_demo,
           env_getUser = (\<lambda>t. if t = ''tok'' then AuthUser ''u1'' else AuthError ''bad jwt''),
           env_stripe = (\<lambda>s. None), env_users_error = False,
           env_openai_create = (\<lambda>m ms. Inr ''Hello''),
           env_openai_stream = (\<lambda>m ms. Inr ([''Hel'', [], ''lo''], None)),
           env_claude_json = (\<lambda>m ms. Inl (JsError ''down'')),
           env_claude_stream = (\<lambda>m ms. Inl (JsError ''down'')),
           env_grok_json = (\<lambda>m ms. Inl (JsError ''down'')),
           env_grok_stream = (\<lambda>m ms. Inl (JsError ''down'')),
           env_gemini = gemini_demo, env_parse = Map.empty, env_db_ok = True,
           env_toFixed2 = (\<lambda>n. ''0.00''), env_now = ''0'',
           env_lookup_error = False, env_count_error = False,
           env_toLowerCase = map lower_char\<rparr>"

definition st_empty :: server_state where
  "st_empty = \<lparr>userConversations = Map.empty, userSelectedModel = Map.empty,
               sessionFiles = Map.empty, chats = [], users = []\<rparr>"

definition req_hello :: request where
  "req_hello = \<lparr>req_sessionId = ''s1'', req_message = ''hello'', req_model = ''gpt-3.5-turbo'',
               req_files = [], req_authorization = Some ''Bearer tok''\<rparr>"

definition req_gpt4 :: request where
  "req_gpt4 = req_hello\<lparr>req_model := ''gpt-4'', req_files := [cat_png]\<rparr>"

text \<open>
  A request for \<^verbatim>\<open>GPT-4-Turbo\<close>, and a request without a model for a session whose model
  on file is \<^verbatim>\<open>Claude-3-Opus\<close>.
\<close>

definition req_upper :: request where
  "req_upper = req_hello\<lparr>req_model := ''GPT-4-Turbo''\<rparr>"

definition req_no_model :: request where
  "req_no_model = req_hello\<lparr>req_model := []\<rparr>"

definition st_claude :: server_state where
  "st_claude = st_empty\<lparr>userConversations :=
                            [''s1'' \<mapsto> [Message System (Text ''You are PantherAI, a helpful assistant.'')]],
                          userSelectedModel := [''s1'' \<mapsto> ''Claude-3-Opus'']\<rparr>"

theorem premium_model_requires_subscription_witness:
  "env_getUser env_demo ''tok'' = AuthUser ''u1''
   \<and> \<not> fst (snd (isUserSubscribed env_demo st_empty ''u1''))
   \<and> requested_model st_empty req_upper = ''GPT-4-Turbo''
   \<and> isPremiumModel (env_toLowerCase env_demo) ''GPT-4-Turbo''
   \<and> \<not> isPremiumModel (env_toLowerCase env_demo) ''gpt-3.5-turbo''
   \<and> chat_intake req_upper = Inr ''tok'' \<and> stream_intake req_upper = Inr ''tok''
   \<and> fst (chat_handler env_demo st_empty req_upper)
       = [GetUser, SubscriptionLookup, ChatLookup, ChatCount, PremiumGate,
          StatusJson 403 premium_denied]
   \<and> fst (stream_handler env_demo st_empty req_upper)
       = [SetSSEHeaders, GetUser, SubscriptionLookup, ChatLookup, ChatCount,
          PremiumGate, Write (Error premium_denied), End]
   \<and> \<not> list_ex is_net (fst (chat_handler env_demo st_empty req_upper))
   \<and> \<not> list_ex is_net (fst (stream_handler env_demo st_empty req_upper))
   \<and> requested_model st_claude req_no_model = ''Claude-3-Opus''
   \<and> fst (chat_handler env_demo st_claude req_no_model)
       = [GetUser, SubscriptionLookup, ChatLookup, ChatCount, PremiumGate,
          StatusJson 403 premium_denied]
   \<and> fst (stream_handler env_demo st_claude req_no_model)
       = [SetSSEHeaders, GetUser, SubscriptionLookup, ChatLookup, ChatCount,
          PremiumGate, Write (Error premium_denied), End]"
proof -
  have a1: "env_getUser env_demo ''tok'' = AuthUser ''u1''" by (simp add: env_demo_def)
  have a2: "\<not> fst (snd (isUserSubscribed env_demo st_empty ''u1''))" by code_simp
  have r: "requested_model st_empty req_upper = ''GPT-4-Turbo''" by code_simp
  have p: "isPremiumModel (env_toLowerCase env_demo) ''GPT-4-Turbo''" by code_simp
  have n: "\<not> isPremiumModel (env_toLowerCase env_demo) ''gpt-3.5-turbo''" by code_simp
  have a3: "isPremiumModel (env_toLowerCase env_demo) (requested_model st_empty req_upper)"
    using r p by simp
  have i1: "chat_intake req_upper = Inr ''tok''" by code_simp
  have i2: "stream_intake req_upper = Inr ''tok''" by code_simp
  have c: "fst (chat_handler env_demo st_empty req_upper)
       = [GetUser, SubscriptionLookup, ChatLookup, ChatCount, PremiumGate,
          StatusJson 403 premium_denied]" by code_simp
  have s: "fst (stream_handler env_demo st_empty req_upper)
       = [SetSSEHeaders, GetUser, SubscriptionLookup, ChatLookup, ChatCount,
          PremiumGate, Write (Error premium_denied), End]" by code_simp
  have r2: "requested_model st_claude req_no_model = ''Claude-3-Opus''" by code_simp
  have c2: "fst (chat_handler env_demo st_claude req_no_model)
       = [GetUser, SubscriptionLookup, ChatLookup, ChatCount, PremiumGate,
          StatusJson 403 premium_denied]" by code_simp
  have s2: "fst (stream_handler env_demo st_claude req_no_model)
       = [SetSSEHeaders, GetUser, SubscriptionLookup, ChatLookup, ChatCount,
          PremiumGate, Write (Error premium_denied), End]" by code_simp
  note inst = premium_model_requires_subscription
    [OF a1 a2 a3, where lower = "env_toLowerCase env_demo" and m = "''GPT-4-Turbo''"]
  from inst i1 i2 have "\<not> list_ex is_net (fst (chat_handler env_demo st_empty req_upper))"
    "\<not> list_ex is_net (fst (stream_handler env_demo st_empty req_upper))"
    by blast+
  with a1 a2 r p n i1 i2 c s r2 c2 s2 show ?thesis by blast
qed


section \<open>The per-chat quota\<close>

lemma check_quota_messages:
  assumes "ec = Some row" "message_count row = Some n" "20 \<le> n"
  shows "check_quota e rows False ec uid = ([], QuotaMessages)"
  using assms by (simp add: check_quota_def)

lemma per_chat_quota_stream:
  assumes "\<not> fst (snd (isUserSubscribed e st uid))"
    and "lookup_chat e (chats st) (req_sessionId req) uid = Some row"
    and "message_count row = Some n" and "20 \<le> n"
  shows "\<exists>pre st'. stream_quota e st req uid = (pre @ sse_error stream_messages_denied, st', Replied)"
proof -
  obtain evs1 st1 where s: "isUserSubscribed e st uid = (evs1, False, st1)"
    using assms(1) by (cases "isUserSubscribed e st uid") auto
  have c: "chats st1 = chats st"
    using chats_isUserSubscribed [of e st uid] s by simp
  have q: "check_quota e (chats st1) False (lookup_chat e (chats st1) (req_sessionId req) uid) uid = ([], QuotaMessages)"
    using check_quota_messages [OF _ assms(3,4)] assms(2) c by simp
  have "stream_quota e st req uid
          = (([SetSSEHeaders, GetUser] @ evs1 @ [ChatLookup]) @ sse_error stream_messages_denied, st1, Replied)"
    using s q by (simp add: stream_quota_def Let_def)
  then show ?thesis by blast
qed

lemma per_chat_quota_chat:
  assumes "\<not> fst (snd (isUserSubscribed e st uid))"
    and "lookup_chat e (chats st) (req_sessionId req) uid = Some row"
    and "message_count row = Some n" and "20 \<le> n"
  shows "\<exists>pre st'. chat_quota e st req uid = (pre @ [StatusJson 403 messages_denied], st', Replied)"
proof -
  obtain evs1 st1 where s: "isUserSubscribed e st uid = (evs1, False, st1)"
    using assms(1) by (cases "isUserSubscribed e st uid") auto
  have c: "chats st1 = chats st"
    using chats_isUserSubscribed [of e st uid] s by simp
  have q: "check_quota e (chats st1) False (lookup_chat e (chats st1) (req_sessionId req) uid) uid = ([], QuotaMessages)"
    using check_quota_messages [OF _ assms(3,4)] assms(2) c by simp
  have "chat_quota e st req uid
          = (([GetUser] @ evs1 @ [ChatLookup]) @ [StatusJson 403 messages_denied], st1, Replied)"
    using s q by (simp add: chat_quota_def Let_def)
  then show ?thesis by blast
qed

text \<open>A session of user \<^verbatim>\<open>u1\<close> with \<open>n\<close> persisted turns.\<close>

definition turns :: "nat \<Rightarrow> message list" where
  "turns n = concat (replicate n [Message User (Text ''q''), Message Assistant (Text ''a'')])"

definition row_of_turns :: "nat \<Rightarrow> chat_row" where
  "row_of_turns n = \<lparr>chat_id = ''s1'', user_id = ''u1'', messages = Some (turns n), message_count = Some n\<rparr>"

definition st_turns :: "nat \<Rightarrow> server_state" where
  "st_turns n = st_empty\<lparr>chats := [row_of_turns n]\<rparr>"

text \<open>
  C4, as stated, fails. The durable record of session \<^verbatim>\<open>s1\<close> holds 20 stored
  messages (ten turns, so its \<^verbatim>\<open>message_count\<close> is 10) and its owner is not
  subscribed; the next turn is not rejected: both routes call the provider, deliver the
  reply and update the record.
\<close>

theorem per_chat_quota_counterexample:
  "find_chat (chats (st_turns 10)) (req_sessionId req_hello) ''u1'' = Some (row_of_turns 10)
   \<and> (case messages (row_of_turns 10) of Some ms \<Rightarrow> length ms = 20 | None \<Rightarrow> False)
   \<and> env_getUser env_demo ''tok'' = AuthUser ''u1''
   \<and> \<not> fst (snd (isUserSubscribed env_demo (st_turns 10) ''u1''))
   \<and> fst (chat_handler env_demo (st_turns 10) req_hello)
       = [GetUser, SubscriptionLookup, ChatLookup, PremiumGate, Net OpenAI, DbUpdate, ReplyJson ''Hello'']
   \<and> fst (stream_handler env_demo (st_turns 10) req_hello)
       = [SetSSEHeaders, GetUser, SubscriptionLookup, ChatLookup, PremiumGate, Net OpenAI,
          Write (Chunk ''Hel''), Write (Chunk ''lo''), Write Done, End, DbUpdate]"
  by code_simp

text \<open>
  C4, amended. The per-chat quota reads \<^verbatim>\<open>message_count\<close>, which counts turns. For
  every authenticated user who is not subscribed and for whose session the lookup of the
  route returns a durable record with \<^verbatim>\<open>message_count\<close> at least 20, both routes
  reject the next turn with the per-chat-quota reason (status 403 in the one-shot route,
  one error event in the streaming route) and no provider is called. On a record whose
  count is half its stored messages, that is at 40 stored messages or more. A lookup
  that fails returns no record; nothing is said here about that turn.
\<close>

theorem per_chat_quota_counts_turns:
  assumes "env_getUser e token = AuthUser uid"
    and "\<not> fst (snd (isUserSubscribed e st uid))"
    and "lookup_chat e (chats st) (req_sessionId req) uid = Some row"
    and "message_count row = Some n" and "20 \<le> n"
  shows "(chat_intake req = Inr token \<longrightarrow>
           (\<exists>pre. fst (chat_handler e st req) = pre @ [StatusJson 403 messages_denied])
           \<and> \<not> list_ex is_net (fst (chat_handler e st req)))
    \<and> (stream_intake req = Inr token \<longrightarrow>
           (\<exists>pre. fst (stream_handler e st req) = pre @ [Write (Error stream_messages_denied), End])
           \<and> \<not> list_ex is_net (fst (stream_handler e st req)))
    \<and> (counts_turns row \<longrightarrow> (\<exists>ms. messages row = Some ms \<and> 40 \<le> length ms))"
proof (intro conjI impI)
  assume i: "chat_intake req = Inr token"
  obtain pre st' where q: "chat_quota e st req uid = (pre @ [StatusJson 403 messages_denied], st', Replied)"
    using per_chat_quota_chat [OF assms(2,3,4,5)] by blast
  have a: "chat_access e st req token = (pre @ [StatusJson 403 messages_denied], st', Replied)"
    using assms(1) q by (simp add: chat_access_def)
  have h: "chat_handler e st req = (pre @ [StatusJson 403 messages_denied], st')"
    by (rule chat_handler_replied [OF i a])
  show "\<exists>pre. fst (chat_handler e st req) = pre @ [StatusJson 403 messages_denied]"
    using h by auto
  show "\<not> list_ex is_net (fst (chat_handler e st req))"
    using front_not_net [OF chat_access_front [of e st req token]] a h by simp
next
  assume i: "stream_intake req = Inr token"
  obtain pre st' where q: "stream_quota e st req uid = (pre @ sse_error stream_messages_denied, st', Replied)"
    using per_chat_quota_stream [OF assms(2,3,4,5)] by blast
  have a: "stream_access e st req token = (pre @ sse_error stream_messages_denied, st', Replied)"
    using assms(1) q by (simp add: stream_access_def)
  have h: "stream_handler e st req = (pre @ sse_error stream_messages_denied, st')"
    by (rule stream_handler_replied [OF i a])
  show "\<exists>pre. fst (stream_handler e st req) = pre @ [Write (Error stream_messages_denied), End]"
    using h by (auto simp: sse_error_def)
  show "\<not> list_ex is_net (fst (stream_handler e st req))"
    using front_not_net [OF stream_access_front [of e st req token]] a h by simp
next
  assume "counts_turns row"
  then show "\<exists>ms. messages row = Some ms \<and> 40 \<le> length ms"
    using assms(4,5) by (auto simp: counts_turns_def split: option.splits)
qed

theorem per_chat_quota_counts_turns_witness:
  "env_getUser env_demo ''tok'' = AuthUser ''u1''
   \<and> \<not> fst (snd (isUserSubscribed env_demo (st_turns 20) ''u1''))
   \<and> lookup_chat env_demo (chats (st_turns 20)) (req_sessionId req_hello) ''u1'' = Some (row_of_turns 20)
   \<and> message_count (row_of_turns 20) = Some 20
   \<and> chat_intake req_hello = Inr ''tok'' \<and> stream_intake req_hello = Inr ''tok''
   \<and> counts_turns (row_of_turns 20)
   \<and> fst (chat_handler env_demo (st_turns 20) req_hello)
       = [GetUser, SubscriptionLookup, ChatLookup, StatusJson 403 messages_denied]
   \<and> fst (stream_handler env_demo (st_turns 20) req_hello)
       = [SetSSEHeaders, GetUser, SubscriptionLookup, ChatLookup,
          Write (Error stream_messages_denied), End]
   \<and> \<not> list_ex is_net (fst (chat_handler env_demo (st_turns 20) req_hello))
   \<and> \<not> list_ex is_net (fst (stream_handler env_demo (st_turns 20) req_hello))"
proof -
  have a1: "env_getUser env_demo ''tok'' = AuthUser ''u1''" by (simp add: env_demo_def)
  have a2: "\<not> fst (snd (isUserSubscribed env_demo (st_turns 20) ''u1''))" by code_simp
  have a3: "lookup_chat env_demo (chats (st_turns 20)) (req_sessionId req_hello) ''u1'' = Some (row_of_turns 20)"
    by code_simp
  have a4: "message_count (row_of_turns 20) = Some 20" by (simp add: row_of_turns_def)
  have a5: "(20::nat) \<le> 20" by simp
  have i1: "chat_intake req_hello = Inr ''tok''" by code_simp
  have i2: "stream_intake req_hello = Inr ''tok''" by code_simp
  have ct: "counts_turns (row_of_turns 20)" by code_simp
  have c: "fst (chat_handler env_demo (st_turns 20) req_hello)
       = [GetUser, SubscriptionLookup, ChatLookup, StatusJson 403 messages_denied]" by code_simp
  have s: "fst (stream_handler env_demo (st_turns 20) req_hello)
       = [SetSSEHeaders, GetUser, SubscriptionLookup, ChatLookup,
          Write (Error stream_messages_denied), End]" by code_simp
  show ?thesis
    using a1 a2 a3 a4 i1 i2 ct c s per_chat_quota_counts_turns [OF a1 a2 a3 a4 a5]
    by simp
qed


text \<open>
  A lookup that fails returns no record: the route takes the session for a new one, the
  count of the session is not examined, and the insert of its row is refused by the key
  of the table.
\<close>

lemma failed_lookup_skips_the_quota:
  "fst (chat_handler (env_demo\<lparr>env_lookup_error := True\<rparr>) (st_turns 20) req_hello)
     = [GetUser, SubscriptionLookup, ChatLookup, ChatCount, PremiumGate, Net OpenAI, DbInsert,
        ReplyJson ''Hello'']
   \<and> chats (snd (chat_handler (env_demo\<lparr>env_lookup_error := True\<rparr>) (st_turns 20) req_hello))
     = chats (st_turns 20)"
  by code_simp


section \<open>What the routes do to the durable table\<close>

text \<open>
  Up to the premium gate a route leaves the \<^verbatim>\<open>chats\<close> table as it is, and the row
  it hands on is the one it read for the session and the authenticated user.
\<close>

lemma stream_gate_chats: "chats (fst (snd (stream_gate e st req uid sub ec))) = chats st"
proof -
  obtain evs3 st2 where u: "upload_stage e req st = (evs3, st2)"
    by (cases "upload_stage e req st")
  have c2: "chats st2 = chats st"
    using chats_upload_stage [of e req st] u by simp
  let ?st3 = "init_session (req_sessionId req) (req_model req) st2"
  obtain m st4 where sm: "select_model (req_sessionId req) (req_model req) ?st3 = (m, st4)"
    by (cases "select_model (req_sessionId req) (req_model req) ?st3")
  have c4: "chats st4 = chats st"
    using chats_select_model [of "req_sessionId req" "req_model req" ?st3] sm c2
    by (simp add: chats_init_session)
  show ?thesis
    using u sm c4 by (simp add: stream_gate_def Let_def)
qed

lemma stream_gate_Proceed:
  "stream_gate e st req uid sub ec = (evs, st', Proceed ac) \<Longrightarrow>
   ac_userId ac = uid \<and> ac_existingChat ac = ec \<and> ac_isSubscribed ac = sub"
  by (auto simp: stream_gate_def Let_def split: prod.splits if_splits)

lemma stream_quota_chats: "chats (fst (snd (stream_quota e st req uid))) = chats st"
proof -
  obtain evs1 sub st1 where s: "isUserSubscribed e st uid = (evs1, sub, st1)"
    by (cases "isUserSubscribed e st uid") auto
  have c: "chats st1 = chats st"
    using chats_isUserSubscribed [of e st uid] s by simp
  let ?ec = "lookup_chat e (chats st1) (req_sessionId req) uid"
  obtain evs2 q where q: "check_quota e (chats st1) sub ?ec uid = (evs2, q)"
    by (cases "check_quota e (chats st1) sub ?ec uid")
  obtain evs3 st4 r where g: "stream_gate e st1 req uid sub ?ec = (evs3, st4, r)"
    by (cases "stream_gate e st1 req uid sub ?ec") auto
  have c4: "chats st4 = chats st"
    using stream_gate_chats [of e st1 req uid sub ?ec] g c by simp
  show ?thesis
    using s q g c c4 by (cases q) (simp_all add: stream_quota_def Let_def)
qed

lemma stream_quota_Proceed:
  assumes "stream_quota e st req uid = (evs, st', Proceed ac)"
  shows "ac_userId ac = uid \<and> ac_existingChat ac = lookup_chat e (chats st) (req_sessionId req) uid"
proof -
  obtain evs1 sub st1 where s: "isUserSubscribed e st uid = (evs1, sub, st1)"
    by (cases "isUserSubscribed e st uid") auto
  have c: "chats st1 = chats st"
    using chats_isUserSubscribed [of e st uid] s by simp
  let ?ec = "lookup_chat e (chats st1) (req_sessionId req) uid"
  obtain evs2 q where q: "check_quota e (chats st1) sub ?ec uid = (evs2, q)"
    by (cases "check_quota e (chats st1) sub ?ec uid")
  obtain evs3 st4 r where g: "stream_gate e st1 req uid sub ?ec = (evs3, st4, r)"
    by (cases "stream_gate e st1 req uid sub ?ec") auto
  have "q = QuotaOk \<and> r = Proceed ac"
    using assms s q g by (cases q) (simp_all add: stream_quota_def Let_def)
  then have "stream_gate e st1 req uid sub ?ec = (evs3, st4, Proceed ac)"
    using g by simp
  from stream_gate_Proceed [OF this] c show ?thesis by simp
qed

lemma stream_access_chats: "chats (fst (snd (stream_access e st req token))) = chats st"
  using stream_quota_chats [of e st req]
  by (cases "env_getUser e token") (simp_all add: stream_access_def)

lemma stream_access_Proceed:
  assumes "stream_access e st req token = (evs, st', Proceed ac)"
  shows "env_getUser e token = AuthUser (ac_userId ac)
         \<and> ac_existingChat ac = lookup_chat e (chats st) (req_sessionId req) (ac_userId ac)"
proof (cases "env_getUser e token")
  case (AuthUser uid)
  with assms have "stream_quota e st req uid = (evs, st', Proceed ac)"
    by (simp add: stream_access_def)
  from stream_quota_Proceed [OF this] AuthUser show ?thesis by simp
qed (use assms in \<open>simp_all add: stream_access_def\<close>)


lemma chat_gate_chats: "chats (fst (snd (chat_gate e st req uid sub ec))) = chats st"
proof -
  obtain evs3 st2 where u: "upload_stage e req st = (evs3, st2)"
    by (cases "upload_stage e req st")
  have c2: "chats st2 = chats st"
    using chats_upload_stage [of e req st] u by simp
  let ?tf = "filter (\<lambda>f. \<not> is_image f) (req_files req)"
  obtain evs_t tc where t: "textFilesContent e ?tf = (evs_t, tc)"
    by (cases "textFilesContent e ?tf")
  let ?st3 = "init_session (req_sessionId req) (req_model req) st2"
  let ?uc = "user_content (req_message req) tc"
  let ?userContent = "if ?uc = [] \<and> (filter is_image (req_files req) \<noteq> [] \<or> ?tf \<noteq> [])
                      then ''Please analyze the attached files.'' else ?uc"
  let ?st4 = "push_message (req_sessionId req) (Message User (Text ?userContent)) ?st3"
  obtain m st5 where sm: "select_model (req_sessionId req) (req_model req) ?st4 = (m, st5)"
    by (cases "select_model (req_sessionId req) (req_model req) ?st4")
  have c5: "chats st5 = chats st"
    using chats_select_model [of "req_sessionId req" "req_model req" ?st4] sm c2
    by (simp add: chats_init_session chats_push_message)
  show ?thesis
    using u t sm c5 by (simp add: chat_gate_def Let_def)
qed

lemma chat_gate_Proceed:
  "chat_gate e st req uid sub ec = (evs, st', Proceed ca) \<Longrightarrow>
   ac_userId (ca_access ca) = uid \<and> ac_existingChat (ca_access ca) = ec"
  by (auto simp: chat_gate_def Let_def split: prod.splits if_splits)

lemma chat_quota_chats: "chats (fst (snd (chat_quota e st req uid))) = chats st"
proof -
  obtain evs1 sub st1 where s: "isUserSubscribed e st uid = (evs1, sub, st1)"
    by (cases "isUserSubscribed e st uid") auto
  have c: "chats st1 = chats st"
    using chats_isUserSubscribed [of e st uid] s by simp
  let ?ec = "lookup_chat e (chats st1) (req_sessionId req) uid"
  obtain evs2 q where q: "check_quota e (chats st1) sub ?ec uid = (evs2, q)"
    by (cases "check_quota e (chats st1) sub ?ec uid")
  obtain evs3 st4 r where g: "chat_gate e st1 req uid sub ?ec = (evs3, st4, r)"
    by (cases "chat_gate e st1 req uid sub ?ec") auto
  have c4: "chats st4 = chats st"
    using chat_gate_chats [of e st1 req uid sub ?ec] g c by simp
  show ?thesis
    using s q g c c4 by (cases q) (simp_all add: chat_quota_def Let_def)
qed

lemma chat_quota_Proceed:
  assumes "chat_quota e st req uid = (evs, st', Proceed ca)"
  shows "ac_userId (ca_access ca) = uid
         \<and> ac_existingChat (ca_access ca) = lookup_chat e (chats st) (req_sessionId req) uid"
proof -
  obtain evs1 sub st1 where s: "isUserSubscribed e st uid = (evs1, sub, st1)"
    by (cases "isUserSubscribed e st uid") auto
  have c: "chats st1 = chats st"
    using chats_isUserSubscribed [of e st uid] s by simp
  let ?ec = "lookup_chat e (chats st1) (req_sessionId req) uid"
  obtain evs2 q where q: "check_quota e (chats st1) sub ?ec uid = (evs2, q)"
    by (cases "check_quota e (chats st1) sub ?ec uid")
  obtain evs3 st4 r where g: "chat_gate e st1 req uid sub ?ec = (evs3, st4, r)"
    by (cases "chat_gate e st1 req uid sub ?ec") auto
  have "q = QuotaOk \<and> r = Proceed ca"
    using assms s q g by (cases q) (simp_all add: chat_quota_def Let_def)
  then have "chat_gate e st1 req uid sub ?ec = (evs3, st4, Proceed ca)"
    using g by simp
  from chat_gate_Proceed [OF this] c show ?thesis by simp
qed

lemma chat_access_chats: "chats (fst (snd (chat_access e st req token))) = chats st"
  using chat_quota_chats [of e st req]
  by (cases "env_getUser e token") (simp_all add: chat_access_def)

lemma chat_access_Proceed:
  assumes "chat_access e st req token = (evs, st', Proceed ca)"
  shows "env_getUser e token = AuthUser (ac_userId (ca_access ca))
         \<and> ac_existingChat (ca_access ca)
             = lookup_chat e (chats st) (req_sessionId req) (ac_userId (ca_access ca))"
proof (cases "env_getUser e token")
  case (AuthUser uid)
  with assms have "chat_quota e st req uid = (evs, st', Proceed ca)"
    by (simp add: chat_access_def)
  from chat_quota_Proceed [OF this] AuthUser show ?thesis by simp
qed (use assms in \<open>simp_all add: chat_access_def\<close>)

text \<open>After the premium gate the table changes only by the save of the turn.\<close>

lemma save_gemini_turn_counts_turns:
  assumes "list_all counts_turns (chats st)"
    and "\<And>ec. existingChat = Some ec \<Longrightarrow> counts_turns ec"
  shows "list_all counts_turns (chats (snd (save_gemini_turn e sid userId u existingChat a st)))"
  unfolding save_gemini_turn_def Let_def
  by (rule save_chat_counts_turns) (simp_all add: assms chats_push_message)

lemma chat_turn_counts_turns:
  assumes "list_all counts_turns (chats st)"
    and "\<And>ec. ac_existingChat (ca_access ca) = Some ec \<Longrightarrow> counts_turns ec"
  shows "list_all counts_turns (chats (snd (chat_turn e st req ca)))"
proof -
  let ?m = "ac_selectedModel (ca_access ca)"
  obtain evs_i msgs where i: "chat_images e ?m (ca_imageFiles ca) (ca_userContent ca)
                                (conversation st (req_sessionId req)) = (evs_i, msgs)"
    by (cases "chat_images e ?m (ca_imageFiles ca) (ca_userContent ca) (conversation st (req_sessionId req))")
  obtain evs_d r where d: "chat_dispatch e ?m (ca_userContent ca) (ca_imageFiles ca) msgs = (evs_d, r)"
    by (cases "chat_dispatch e ?m (ca_userContent ca) (ca_imageFiles ca) msgs")
  show ?thesis
  proof (cases r)
    case (Inl err)
    with i d assms(1) show ?thesis by (simp add: chat_turn_def Let_def)
  next
    case (Inr botReply)
    let ?st1 = "push_message (req_sessionId req) (Message Assistant (Text botReply)) st"
    have inv: "list_all counts_turns (chats (snd (save_chat e (req_sessionId req)
                  (ac_userId (ca_access ca)) (ca_userContent ca) botReply
                  (ac_existingChat (ca_access ca)) ?st1)))"
      by (rule save_chat_counts_turns) (simp_all add: assms chats_push_message)
    with i d Inr show ?thesis
      by (auto simp: chat_turn_def Let_def split: prod.splits)
  qed
qed

lemma turn_outcome_counts_turns:
  assumes "list_all counts_turns (chats st)"
    and "\<And>ec. existingChat = Some ec \<Longrightarrow> counts_turns ec"
    and "turn_done (saveCompletedChat e sid uid uc existingChat) st out
         \<or> turn_done (save_gemini_turn e sid uid uc existingChat) st out
         \<or> turn_failed st out"
  shows "list_all counts_turns (chats (snd out))"
  using assms(3)
proof (elim disjE)
  assume "turn_done (saveCompletedChat e sid uid uc existingChat) st out"
  then obtain c where "snd out = snd (saveCompletedChat e sid uid uc existingChat c st)"
    by (auto simp: turn_done_def)
  then show ?thesis
    using saveCompletedChat_counts_turns [OF assms(1,2), of existingChat e sid uid uc c] by simp
next
  assume "turn_done (save_gemini_turn e sid uid uc existingChat) st out"
  then obtain c where "snd out = snd (save_gemini_turn e sid uid uc existingChat c st)"
    by (auto simp: turn_done_def)
  then show ?thesis
    using save_gemini_turn_counts_turns [OF assms(1,2), of existingChat e sid uid uc c] by simp
next
  assume "turn_failed st out"
  then have "snd out = st" by (auto simp: turn_failed_def)
  with assms(1) show ?thesis by simp
qed


section \<open>Outcome of the streaming route after the premium gate\<close>

lemma io_fs: "list_all is_fs evs \<Longrightarrow> list_all is_provider_io evs"
  by (induction evs) (simp_all add: is_provider_io_def)

lemma turn_done_prefix:
  assumes "list_all is_provider_io p" "turn_done save st (evs, st')"
  shows "turn_done save st (p @ evs, st')"
proof -
  from assms(2) obtain pre cs where pre: "list_all is_provider_io pre"
    and out: "(evs, st') = (pre @ chunk_writes cs @ [Write Done, End] @ fst (save (concat cs) st),
                           snd (save (concat cs) st))"
    unfolding turn_done_def by blast
  show ?thesis
    by (rule turn_doneI [where pre = "p @ pre" and cs = cs]) (use assms(1) pre out in simp_all)
qed

lemma turn_failed_prefix:
  assumes "list_all is_provider_io p" "turn_failed st (evs, st')"
  shows "turn_failed st (p @ evs, st')"
proof -
  from assms(2) obtain pre cs errs where pre: "list_all is_provider_io pre"
    and errs: "list_all is_error_end errs" and ef: "error_first errs"
    and out: "(evs, st') = (pre @ chunk_writes cs @ errs, st)"
    unfolding turn_failed_def by blast
  show ?thesis
    by (rule turn_failedI [where pre = "p @ pre" and cs = cs and errs = errs])
       (use assms(1) pre errs ef out in simp_all)
qed

lemma attach_images_fs: "list_all is_fs (fst (attach_images e target pname imgs uc msgs))"
  using validImageContents_fs [of "env_fs e" imgs target]
  by (cases "validImageContents (env_fs e) imgs target") (simp add: attach_images_def)

lemma stream_images_fs: "list_all is_fs (fst (stream_images e m imgs uc msgs))"
  by (simp add: stream_images_def attach_images_fs)

lemma stream_prompt_fs: "list_all is_fs (fst (stream_prompt e req))"
  using textFilesContent_fs [of e "filter (\<lambda>f. mimetype f \<noteq> [] \<and> \<not> is_image f) (req_files req)"]
  by (cases "textFilesContent e (filter (\<lambda>f. mimetype f \<noteq> [] \<and> \<not> is_image f) (req_files req))")
     (simp add: stream_prompt_def Let_def)

lemma stream_turn_outcome:
  "turn_done (saveCompletedChat e (req_sessionId req) (ac_userId ac) (fst (snd (stream_prompt e req)))
               (ac_existingChat ac)) st (stream_turn e st req ac)
   \<or> turn_done (save_gemini_turn e (req_sessionId req) (ac_userId ac) (fst (snd (stream_prompt e req)))
               (ac_existingChat ac)) st (stream_turn e st req ac)
   \<or> turn_failed st (stream_turn e st req ac)"
proof -
  obtain evs_t uc imgs where p: "stream_prompt e req = (evs_t, uc, imgs)"
    by (cases "stream_prompt e req") auto
  let ?msgs1 = "stream_messages st (req_sessionId req) uc"
  obtain evs_i r where i: "stream_images e (ac_selectedModel ac) imgs uc ?msgs1 = (evs_i, r)"
    by (cases "stream_images e (ac_selectedModel ac) imgs uc ?msgs1")
  have io_t: "list_all is_provider_io evs_t"
    using stream_prompt_fs [of e req] p by (simp add: io_fs)
  have io_i: "list_all is_provider_io evs_i"
    using stream_images_fs [of e "ac_selectedModel ac" imgs uc ?msgs1] i by (simp add: io_fs)
  have io: "list_all is_provider_io (evs_t @ evs_i)"
    using io_t io_i by simp
  show ?thesis
  proof (cases r)
    case (Inl err)
    have st: "stream_turn e st req ac = ((evs_t @ evs_i) @ sse_error err, st)"
      using p i Inl by (simp add: stream_turn_def Let_def)
    have "turn_failed st (stream_turn e st req ac)"
      by (rule turn_failedI [where pre = "evs_t @ evs_i" and cs = "[]" and errs = "sse_error err"])
         (simp_all add: io_t io_i st)
    then show ?thesis by blast
  next
    case (Inr msgs)
    obtain evs_d st' where d: "stream_dispatch e st (req_sessionId req) ac uc imgs msgs = (evs_d, st')"
      by (cases "stream_dispatch e st (req_sessionId req) ac uc imgs msgs")
    have st: "stream_turn e st req ac = ((evs_t @ evs_i) @ evs_d, st')"
      using p i Inr d by (simp add: stream_turn_def Let_def)
    show ?thesis
      unfolding st
      using stream_dispatch_outcome [of e "req_sessionId req" ac uc st imgs msgs] d p
        turn_done_prefix [OF io] turn_failed_prefix [OF io]
      by auto
  qed
qed


section \<open>The three ways a route ends\<close>

lemma stream_handler_cases:
  obtains (intake) reply where "stream_intake req = Inl reply" "stream_handler e st req = ([reply], st)"
  | (replied) token evs st1 where "stream_intake req = Inr token"
      "stream_access e st req token = (evs, st1, Replied)" "stream_handler e st req = (evs, st1)"
  | (turn) token evs st1 ac evs2 st2 where "stream_intake req = Inr token"
      "stream_access e st req token = (evs, st1, Proceed ac)"
      "stream_turn e st1 req ac = (evs2, st2)" "stream_handler e st req = (evs @ evs2, st2)"
proof (cases "stream_intake req")
  case (Inl reply)
  then have "stream_handler e st req = ([reply], st)" by (simp add: stream_handler_def)
  with Inl show ?thesis by (rule intake)
next
  case (Inr token)
  obtain evs st1 r where a: "stream_access e st req token = (evs, st1, r)"
    by (cases "stream_access e st req token") auto
  show ?thesis
  proof (cases r)
    case Replied
    with Inr a have "stream_handler e st req = (evs, st1)" by (simp add: stream_handler_def)
    with Inr a Replied show ?thesis using replied by blast
  next
    case (Proceed ac)
    obtain evs2 st2 where t: "stream_turn e st1 req ac = (evs2, st2)"
      by (cases "stream_turn e st1 req ac")
    with Inr a Proceed have "stream_handler e st req = (evs @ evs2, st2)"
      by (simp add: stream_handler_def)
    with Inr a Proceed t show ?thesis using turn by blast
  qed
qed

lemma chat_handler_cases:
  obtains (intake) reply where "chat_intake req = Inl reply" "chat_handler e st req = ([reply], st)"
  | (replied) token evs st1 where "chat_intake req = Inr token"
      "chat_access e st req token = (evs, st1, Replied)" "chat_handler e st req = (evs, st1)"
  | (turn) token evs st1 ca evs2 st2 where "chat_intake req = Inr token"
      "chat_access e st req token = (evs, st1, Proceed ca)"
      "chat_turn e st1 req ca = (evs2, st2)" "chat_handler e st req = (evs @ evs2, st2)"
proof (cases "chat_intake req")
  case (Inl reply)
  then have "chat_handler e st req = ([reply], st)" by (simp add: chat_handler_def)
  with Inl show ?thesis by (rule intake)
next
  case (Inr token)
  obtain evs st1 r where a: "chat_access e st req token = (evs, st1, r)"
    by (cases "chat_access e st req token") auto
  show ?thesis
  proof (cases r)
    case Replied
    with Inr a have "chat_handler e st req = (evs, st1)" by (simp add: chat_handler_def)
    with Inr a Replied show ?thesis using replied by blast
  next
    case (Proceed ca)
    obtain evs2 st2 where t: "chat_turn e st1 req ca = (evs2, st2)"
      by (cases "chat_turn e st1 req ca")
    with Inr a Proceed have "chat_handler e st req = (evs @ evs2, st2)"
      by (simp add: chat_handler_def)
    with Inr a Proceed t show ?thesis using turn by blast
  qed
qed

section \<open>The message count counts turns\<close>

lemma stream_handler_counts_turns:
  assumes "list_all counts_turns (chats st)"
  shows "list_all counts_turns (chats (snd (stream_handler e st req)))"
proof (cases rule: stream_handler_cases [of req e st])
  case (intake reply)
  with assms show ?thesis by simp
next
  case (replied token evs st1)
  have "chats st1 = chats st"
    using stream_access_chats [of e st req token] replied(2) by simp
  with assms replied(3) show ?thesis by simp
next
  case (turn token evs st1 ac evs2 st2)
  have c: "chats st1 = chats st"
    using stream_access_chats [of e st req token] turn(2) by simp
  have ec: "ac_existingChat ac = lookup_chat e (chats st) (req_sessionId req) (ac_userId ac)"
    using stream_access_Proceed [OF turn(2)] by simp
  have ok: "\<And>row. ac_existingChat ac = Some row \<Longrightarrow> counts_turns row"
    using ec lookup_chat_in assms by (fastforce simp: list_all_iff)
  have inv1: "list_all counts_turns (chats st1)" using assms c by simp
  have "list_all counts_turns (chats (snd (stream_turn e st1 req ac)))"
    by (rule turn_outcome_counts_turns [OF inv1 _ stream_turn_outcome]) (rule ok)
  with turn(3,4) show ?thesis by simp
qed

lemma chat_handler_counts_turns:
  assumes "list_all counts_turns (chats st)"
  shows "list_all counts_turns (chats (snd (chat_handler e st req)))"
proof (cases rule: chat_handler_cases [of req e st])
  case (intake reply)
  with assms show ?thesis by simp
next
  case (replied token evs st1)
  have "chats st1 = chats st"
    using chat_access_chats [of e st req token] replied(2) by simp
  with assms replied(3) show ?thesis by simp
next
  case (turn token evs st1 ca evs2 st2)
  have c: "chats st1 = chats st"
    using chat_access_chats [of e st req token] turn(2) by simp
  have ec: "ac_existingChat (ca_access ca) = lookup_chat e (chats st) (req_sessionId req) (ac_userId (ca_access ca))"
    using chat_access_Proceed [OF turn(2)] by simp
  have ok: "\<And>row. ac_existingChat (ca_access ca) = Some row \<Longrightarrow> counts_turns row"
    using ec lookup_chat_in assms by (fastforce simp: list_all_iff)
  have inv1: "list_all counts_turns (chats st1)" using assms c by simp
  have "list_all counts_turns (chats (snd (chat_turn e st1 req ca)))"
    by (rule chat_turn_counts_turns [OF inv1]) (rule ok)
  with turn(3,4) show ?thesis by simp
qed

lemma delete_handler_counts_turns:
  assumes "list_all counts_turns (chats st)"
  shows "list_all counts_turns (chats (snd (delete_handler e st sid authorization)))"
proof -
  have d: "\<And>uid. list_all counts_turns (delete_rows sid uid (chats st))"
    using assms by (simp add: delete_rows_def list_all_iff)
  show ?thesis
    using assms d
    by (simp add: delete_handler_def split: sum.splits auth_result.splits)
qed

text \<open>
  The states the server can be in: it starts with an empty \<^verbatim>\<open>chats\<close> table and
  serves requests on the three routes that write to the table.
\<close>

inductive reachable :: "server_state \<Rightarrow> bool" where
  boot: "chats st = [] \<Longrightarrow> reachable st"
| chat: "reachable st \<Longrightarrow> reachable (snd (chat_handler e st req))"
| stream: "reachable st \<Longrightarrow> reachable (snd (stream_handler e st req))"
| delete: "reachable st \<Longrightarrow> reachable (snd (delete_handler e st sid authorization))"

lemma reachable_counts_turns: "reachable st \<Longrightarrow> list_all counts_turns (chats st)"
proof (induction rule: reachable.induct)
  case (boot st)
  then show ?case by simp
next
  case (chat st e req)
  then show ?case by (simp add: chat_handler_counts_turns)
next
  case (stream st e req)
  then show ?case by (simp add: stream_handler_counts_turns)
next
  case (delete st e sid authorization)
  then show ?case by (simp add: delete_handler_counts_turns)
qed


lemma save_chat_insert:
  assumes "env_db_ok e" "\<not> list_ex (\<lambda>r. chat_id r = sid) (chats st)"
  shows "chats (snd (save_chat e sid uid u a None st))
         = chats st @ [\<lparr>chat_id = sid, user_id = uid,
                         messages = Some [Message User (Text u), Message Assistant (Text a)],
                         message_count = Some 1\<rparr>]"
  using assms by (simp add: save_chat_def insert_chat_def)

lemma find_chat_update:
  assumes "find_chat rows sid uid = Some row"
  shows "find_chat (update_chat sid ms n rows) sid uid
         = Some (row\<lparr>messages := Some ms, message_count := Some n\<rparr>)"
  using assms
proof (induction rows)
  case Nil
  then show ?case by (simp add: find_chat_def)
next
  case (Cons r rows)
  show ?case
  proof (cases "chat_id r = sid \<and> user_id r = uid")
    case True
    with Cons.prems have "row = r" by (simp add: find_chat_def)
    with True show ?thesis by (simp add: find_chat_def update_chat_def)
  next
    case False
    with Cons.prems have "find_chat rows sid uid = Some row" by (auto simp: find_chat_def)
    from Cons.IH [OF this] False show ?thesis
      by (auto simp: find_chat_def update_chat_def)
  qed
qed

lemma save_chat_update:
  assumes "env_db_ok e" "find_chat (chats st) sid uid = Some row"
    and "messages row = Some ms" "message_count row = Some n"
  shows "find_chat (chats (snd (save_chat e sid uid u a (Some row) st))) sid uid
         = Some (row\<lparr>messages := Some (ms @ [Message User (Text u), Message Assistant (Text a)]),
                     message_count := Some (n + 1)\<rparr>)"
  using assms find_chat_update [OF assms(2)]
  by (simp add: save_chat_def)

text \<open>
  C10. In every state the server can reach, every row of the durable table has a
  \<^verbatim>\<open>message_count\<close> that is half the number of its stored messages: it counts
  turns. A save that succeeds for a session without a row inserts a row with the two
  messages of the turn (the user's, then the assistant's) and \<^verbatim>\<open>message_count\<close> 1;
  a save that succeeds for a session with a row appends exactly those two messages to
  the row's messages and adds exactly 1 to its \<^verbatim>\<open>message_count\<close>.
\<close>

theorem message_count_counts_turns:
  "(reachable st \<longrightarrow> list_all counts_turns (chats st))
   \<and> (env_db_ok e \<and> \<not> list_ex (\<lambda>r. chat_id r = sid) (chats st) \<longrightarrow>
        chats (snd (save_chat e sid uid u a None st))
        = chats st @ [\<lparr>chat_id = sid, user_id = uid,
                        messages = Some [Message User (Text u), Message Assistant (Text a)],
                        message_count = Some 1\<rparr>])
   \<and> (env_db_ok e \<and> find_chat (chats st) sid uid = Some row
        \<and> messages row = Some ms \<and> message_count row = Some n \<longrightarrow>
        find_chat (chats (snd (save_chat e sid uid u a (Some row) st))) sid uid
        = Some (row\<lparr>messages := Some (ms @ [Message User (Text u), Message Assistant (Text a)]),
                    message_count := Some (n + 1)\<rparr>))"
  using reachable_counts_turns [of st] save_chat_insert [of e sid st uid u a]
    save_chat_update [of e st sid uid row ms n u a]
  by blast

theorem message_count_counts_turns_witness:
  "reachable (snd (stream_handler env_demo (snd (chat_handler env_demo st_empty req_hello)) req_hello))
   \<and> chats (snd (chat_handler env_demo st_empty req_hello))
       = [\<lparr>chat_id = ''s1'', user_id = ''u1'',
           messages = Some [Message User (Text ''hello''), Message Assistant (Text ''Hello'')],
           message_count = Some 1\<rparr>]
   \<and> chats (snd (stream_handler env_demo (snd (chat_handler env_demo st_empty req_hello)) req_hello))
       = [\<lparr>chat_id = ''s1'', user_id = ''u1'',
           messages = Some [Message User (Text ''hello''), Message Assistant (Text ''Hello''),
                            Message User (Text ''hello''), Message Assistant (Text ''Hello'')],
           message_count = Some 2\<rparr>]
   \<and> list_all counts_turns
        (chats (snd (stream_handler env_demo (snd (chat_handler env_demo st_empty req_hello)) req_hello)))"
proof -
  let ?st1 = "snd (chat_handler env_demo st_empty req_hello)"
  let ?st2 = "snd (stream_handler env_demo ?st1 req_hello)"
  have "reachable st_empty" by (rule reachable.boot) (simp add: st_empty_def)
  then have "reachable ?st1" by (rule reachable.chat)
  then have r: "reachable ?st2" by (rule reachable.stream)
  have c1: "chats ?st1
       = [\<lparr>chat_id = ''s1'', user_id = ''u1'',
           messages = Some [Message User (Text ''hello''), Message Assistant (Text ''Hello'')],
           message_count = Some 1\<rparr>]" by code_simp
  have c2: "chats ?st2
       = [\<lparr>chat_id = ''s1'', user_id = ''u1'',
           messages = Some [Message User (Text ''hello''), Message Assistant (Text ''Hello''),
                            Message User (Text ''hello''), Message Assistant (Text ''Hello'')],
           message_count = Some 2\<rparr>]" by code_simp
  show ?thesis
    using r c1 c2 message_count_counts_turns [of ?st2] by simp
qed


section \<open>The streamed reply is the persisted reply\<close>

text \<open>
  The last message of a history, and the last message stored in the durable row of a
  session of a user. A session id is free for a user when the user owns its row or no row
  has the id (the id is the key of the table, so a save for a session whose id another
  user's row holds does not insert).
\<close>

definition last_message :: "message list \<Rightarrow> message option" where
  "last_message ms = (if ms = [] then None else Some (last ms))"

definition last_stored :: "chat_row list \<Rightarrow> string \<Rightarrow> string \<Rightarrow> message option" where
  "last_stored rows sessionId userId =
     (case find_chat rows sessionId userId of
        Some row \<Rightarrow> (case messages row of Some ms \<Rightarrow> last_message ms | None \<Rightarrow> None)
      | None \<Rightarrow> None)"

definition session_free :: "chat_row list \<Rightarrow> string \<Rightarrow> string \<Rightarrow> bool" where
  "session_free rows sessionId userId =
     (find_chat rows sessionId userId \<noteq> None \<or> \<not> list_ex (\<lambda>r. chat_id r = sessionId) rows)"

lemma io_quiet: "list_all is_provider_io evs \<Longrightarrow> chunks_of evs = [] \<and> Write Done \<notin> set evs"
proof (induction evs)
  case Nil
  show ?case by simp
next
  case (Cons ev evs)
  then have f: "is_provider_io ev" by simp
  have 1: "ev \<noteq> Write Done"
    using f by (auto simp: is_provider_io_def is_net_def is_fs_def)
  have 2: "chunks_of [ev] = []"
    using f by (cases ev) (auto simp: chunks_of_def is_provider_io_def is_net_def is_fs_def)
  have "chunks_of (ev # evs) = chunks_of [ev] @ chunks_of evs"
    using chunks_of_append [of "[ev]" evs] by simp
  with Cons 1 2 show ?case by simp
qed

lemma error_end_quiet: "list_all is_error_end evs \<Longrightarrow> chunks_of evs = [] \<and> Write Done \<notin> set evs"
proof (induction evs)
  case Nil
  show ?case by simp
next
  case (Cons ev evs)
  then have f: "is_error_end ev" by simp
  have 1: "ev \<noteq> Write Done"
    using f by (auto simp: is_error_end_def)
  have 2: "chunks_of [ev] = []"
    using f by (cases ev) (auto simp: chunks_of_def is_error_end_def split: sse.splits)
  have "chunks_of (ev # evs) = chunks_of [ev] @ chunks_of evs"
    using chunks_of_append [of "[ev]" evs] by simp
  with Cons 1 2 show ?case by simp
qed

lemma chunk_writes_no_done: "Write Done \<notin> set (chunk_writes cs)"
  by (induction cs) simp_all

lemma save_chat_events: "fst (save_chat e sid uid u a ec st) = [DbInsert] \<or> fst (save_chat e sid uid u a ec st) = [DbUpdate]"
  by (cases ec) (simp_all add: save_chat_def Let_def)

lemma save_chat_quiet: "chunks_of (fst (save_chat e sid uid u a ec st)) = []"
  using save_chat_events [of e sid uid u a ec st] by (auto simp: chunks_of_def)

lemma saveCompletedChat_quiet: "chunks_of (fst (saveCompletedChat e sid uid u ec c st)) = []"
  by (simp add: saveCompletedChat_def Let_def save_chat_quiet)

lemma save_gemini_turn_quiet: "chunks_of (fst (save_gemini_turn e sid uid u ec c st)) = []"
  by (simp add: save_gemini_turn_def Let_def save_chat_quiet)

lemma conversation_push: "conversation (push_message sid m st) sid = conversation st sid @ [m]"
  by (simp add: push_message_def conversation_def)

lemma conversation_save_chat: "conversation (snd (save_chat e sid uid u a ec st)) s = conversation st s"
  by (cases ec) (simp_all add: save_chat_def Let_def conversation_def)

lemma saveCompletedChat_last:
  "last_message (conversation (snd (saveCompletedChat e sid uid u ec c st)) sid)
   = Some (Message Assistant (Text c))"
  by (simp add: saveCompletedChat_def Let_def conversation_save_chat conversation_push last_message_def)

lemma save_gemini_turn_last:
  "last_message (conversation (snd (save_gemini_turn e sid uid u ec c st)) sid)
   = Some (Message Assistant (Text c))"
  by (simp add: save_gemini_turn_def Let_def conversation_save_chat conversation_push last_message_def)


lemma find_chat_append_new:
  assumes "find_chat rows sid uid = None" "chat_id row = sid" "user_id row = uid"
  shows "find_chat (rows @ [row]) sid uid = Some row"
  using assms by (induction rows) (auto simp: find_chat_def)

lemma save_chat_stored_found:
  assumes "ec = find_chat (chats st) sid uid"
  shows "if env_db_ok e \<and> session_free (chats st) sid uid
         then last_stored (chats (snd (save_chat e sid uid u a ec st))) sid uid
              = Some (Message Assistant (Text a))
         else chats (snd (save_chat e sid uid u a ec st)) = chats st"
proof (cases "env_db_ok e")
  case False
  then show ?thesis by (cases ec) (simp_all add: save_chat_def Let_def)
next
  case True
  show ?thesis
  proof (cases ec)
    case None
    then have none: "find_chat (chats st) sid uid = None" using assms by simp
    show ?thesis
    proof (cases "list_ex (\<lambda>r. chat_id r = sid) (chats st)")
      case True
      with none \<open>env_db_ok e\<close> None show ?thesis
        by (simp add: save_chat_def insert_chat_def session_free_def)
    next
      case False
      let ?row = "\<lparr>chat_id = sid, user_id = uid,
                    messages = Some [Message User (Text u), Message Assistant (Text a)],
                    message_count = Some 1\<rparr>"
      have "find_chat (chats st @ [?row]) sid uid = Some ?row"
        by (rule find_chat_append_new [OF none]) simp_all
      with False \<open>env_db_ok e\<close> None show ?thesis
        by (simp add: save_chat_def insert_chat_def session_free_def last_stored_def last_message_def)
    qed
  next
    case (Some row)
    then have f: "find_chat (chats st) sid uid = Some row" using assms by simp
    let ?ms = "(case messages row of Some ms \<Rightarrow> ms | None \<Rightarrow> [])
               @ [Message User (Text u), Message Assistant (Text a)]"
    let ?n = "(case message_count row of Some n \<Rightarrow> n | None \<Rightarrow> 0) + 1"
    have "find_chat (update_chat sid ?ms ?n (chats st)) sid uid
            = Some (row\<lparr>messages := Some ?ms, message_count := Some ?n\<rparr>)"
      by (rule find_chat_update [OF f])
    with f \<open>env_db_ok e\<close> Some show ?thesis
      by (simp add: save_chat_def Let_def session_free_def last_stored_def last_message_def)
  qed
qed

lemma find_chat_id:
  assumes "find_chat rows sid uid = Some row"
  shows "list_ex (\<lambda>r. chat_id r = sid) rows"
proof -
  have "row \<in> set rows" by (rule find_chat_in [OF assms])
  moreover have "chat_id row = sid" using assms by (auto simp: find_chat_def find_Some_iff)
  ultimately show ?thesis by (auto simp: list_ex_iff)
qed

lemma save_chat_stored:
  assumes "ec = lookup_chat e (chats st) sid uid"
  shows "if env_db_ok e \<and> session_free (chats st) sid uid
            \<and> lookup_chat e (chats st) sid uid = find_chat (chats st) sid uid
         then last_stored (chats (snd (save_chat e sid uid u a ec st))) sid uid
              = Some (Message Assistant (Text a))
         else chats (snd (save_chat e sid uid u a ec st)) = chats st"
proof (cases "lookup_chat e (chats st) sid uid = find_chat (chats st) sid uid")
  case True
  with assms have "ec = find_chat (chats st) sid uid" by simp
  from save_chat_stored_found [OF this, of e u a] True show ?thesis by simp
next
  case False
  then obtain row where f: "find_chat (chats st) sid uid = Some row" and n: "ec = None"
    using assms by (cases "find_chat (chats st) sid uid") (auto simp: lookup_chat_def split: if_splits)
  have "chats (snd (save_chat e sid uid u a ec st)) = chats st"
    using find_chat_id [OF f] n by (simp add: save_chat_def insert_chat_def)
  with False show ?thesis by simp
qed

lemma saveCompletedChat_stored:
  assumes "ec = lookup_chat e (chats st) sid uid"
  shows "if env_db_ok e \<and> session_free (chats st) sid uid
            \<and> lookup_chat e (chats st) sid uid = find_chat (chats st) sid uid
         then last_stored (chats (snd (saveCompletedChat e sid uid u ec c st))) sid uid
              = Some (Message Assistant (Text c))
         else chats (snd (saveCompletedChat e sid uid u ec c st)) = chats st"
proof -
  let ?st1 = "if u \<noteq> [] \<and> \<not> list_ex (\<lambda>msg. role_of msg = User \<and> content_of msg = Text u)
                               (conversation st sid)
              then push_message sid (Message User (Text u)) st else st"
  let ?st2 = "push_message sid (Message Assistant (Text c)) ?st1"
  have c: "chats ?st2 = chats st" by (simp add: chats_push_message)
  have "ec = lookup_chat e (chats ?st2) sid uid" using assms c by simp
  from save_chat_stored [OF this, of u c] c show ?thesis
    by (simp add: saveCompletedChat_def Let_def)
qed

lemma save_gemini_turn_stored:
  assumes "ec = lookup_chat e (chats st) sid uid"
  shows "if env_db_ok e \<and> session_free (chats st) sid uid
            \<and> lookup_chat e (chats st) sid uid = find_chat (chats st) sid uid
         then last_stored (chats (snd (save_gemini_turn e sid uid u ec c st))) sid uid
              = Some (Message Assistant (Text c))
         else chats (snd (save_gemini_turn e sid uid u ec c st)) = chats st"
proof -
  let ?st2 = "push_message sid (Message Assistant (Text c)) (push_message sid (Message User (Text u)) st)"
  have c: "chats ?st2 = chats st" by (simp add: chats_push_message)
  have "ec = lookup_chat e (chats ?st2) sid uid" using assms c by simp
  from save_chat_stored [OF this, of u c] c show ?thesis
    by (simp add: save_gemini_turn_def Let_def)
qed

text \<open>A turn that wrote the done event is a completed turn.\<close>

lemma turn_failed_no_done: "turn_failed st (evs, st') \<Longrightarrow> Write Done \<notin> set evs"
  by (auto simp: turn_failed_def dest: io_quiet error_end_quiet simp: chunk_writes_no_done)

lemma stream_intake_front: "stream_intake req = Inl reply \<Longrightarrow> is_front reply"
  by (auto simp: stream_intake_def auth_header_def split: if_splits option.splits)


lemma turn_done_persist:
  assumes td: "turn_done save st1 (evs2, st2)"
    and quiet: "\<And>c s. chunks_of (fst (save c s)) = []"
    and lastm: "\<And>c s. last_message (conversation (snd (save c s)) sid) = Some (Message Assistant (Text c))"
    and stored: "\<And>c. if env_db_ok e \<and> session_free (chats st1) sid uid
                        \<and> lookup_chat e (chats st1) sid uid = find_chat (chats st1) sid uid
                     then last_stored (chats (snd (save c st1))) sid uid = Some (Message Assistant (Text c))
                     else chats (snd (save c st1)) = chats st1"
  shows "last_message (conversation st2 sid) = Some (Message Assistant (Text (concat (chunks_of evs2))))
       \<and> (if env_db_ok e \<and> session_free (chats st1) sid uid
             \<and> lookup_chat e (chats st1) sid uid = find_chat (chats st1) sid uid
          then last_stored (chats st2) sid uid = Some (Message Assistant (Text (concat (chunks_of evs2))))
          else chats st2 = chats st1)"
proof -
  from td obtain pre cs where pre: "list_all is_provider_io pre"
    and evs2: "evs2 = pre @ chunk_writes cs @ [Write Done, End] @ fst (save (concat cs) st1)"
    and st2: "st2 = snd (save (concat cs) st1)"
    unfolding turn_done_def by auto
  have "chunks_of pre = []" using io_quiet [OF pre] by simp
  then have c: "chunks_of evs2 = cs"
    by (simp add: evs2 quiet chunks_of_Cons)
  show ?thesis
    using lastm [of "concat cs" st1] stored [of "concat cs"] by (simp add: c st2)
qed

text \<open>
  C1. For every request to the streaming route that writes the done event, the request
  was made by an authenticated user, and the assistant message at the end of the
  session's history in memory is exactly the concatenation, in order, of all chunk
  strings the route wrote to the response. When the write to the durable store succeeds
  (the session id is the user's to use, and the route's lookup of the session's row
  returned what the table holds), the last message stored in the session's row is that
  same assistant message; otherwise the durable table is unchanged.
\<close>

theorem streamed_reply_is_persisted:
  assumes "stream_handler e st req = (evs, st')" and "Write Done \<in> set evs"
  shows "\<exists>token uid. stream_intake req = Inr token \<and> env_getUser e token = AuthUser uid
          \<and> last_message (conversation st' (req_sessionId req))
              = Some (Message Assistant (Text (concat (chunks_of evs))))
          \<and> (if env_db_ok e \<and> session_free (chats st) (req_sessionId req) uid
                \<and> lookup_chat e (chats st) (req_sessionId req) uid
                    = find_chat (chats st) (req_sessionId req) uid
             then last_stored (chats st') (req_sessionId req) uid
                  = Some (Message Assistant (Text (concat (chunks_of evs))))
             else chats st' = chats st)"
proof (cases rule: stream_handler_cases [of req e st])
  case (intake reply)
  from stream_intake_front [OF intake(1)] have "list_all is_front [reply]" by simp
  from front_quiet [OF this] intake(2) assms show ?thesis by simp
next
  case (replied token evsA st1)
  have "list_all is_front evsA"
    using stream_access_front [of e st req token] replied(2) by simp
  from front_quiet [OF this] replied(3) assms show ?thesis by simp
next
  case (turn token evsA st1 ac evs2 st2)
  let ?sid = "req_sessionId req"
  let ?uc = "fst (snd (stream_prompt e req))"
  have fr: "list_all is_front evsA"
    using stream_access_front [of e st req token] turn(2) by simp
  have eq: "evs = evsA @ evs2" "st' = st2" using turn(4) assms(1) by simp_all
  have quietA: "chunks_of evsA = []" "Write Done \<notin> set evsA"
    using front_quiet [OF fr] by simp_all
  then have done2: "Write Done \<in> set evs2" using assms(2) eq by simp
  have ch: "chunks_of evs = chunks_of evs2" using quietA eq by simp
  have c1: "chats st1 = chats st"
    using stream_access_chats [of e st req token] turn(2) by simp
  have auth: "env_getUser e token = AuthUser (ac_userId ac)"
    and ec: "ac_existingChat ac = lookup_chat e (chats st1) ?sid (ac_userId ac)"
    using stream_access_Proceed [OF turn(2)] c1 by simp_all
  have nf: "\<not> turn_failed st1 (evs2, st2)"
    using turn_failed_no_done [of st1 evs2 st2] done2 by blast
  from stream_turn_outcome [of e req ac st1] nf turn(3)
  consider (sse) "turn_done (saveCompletedChat e ?sid (ac_userId ac) ?uc (ac_existingChat ac)) st1 (evs2, st2)"
    | (gem) "turn_done (save_gemini_turn e ?sid (ac_userId ac) ?uc (ac_existingChat ac)) st1 (evs2, st2)"
    by auto
  then have "last_message (conversation st2 ?sid) = Some (Message Assistant (Text (concat (chunks_of evs2))))
       \<and> (if env_db_ok e \<and> session_free (chats st1) ?sid (ac_userId ac)
             \<and> lookup_chat e (chats st1) ?sid (ac_userId ac) = find_chat (chats st1) ?sid (ac_userId ac)
          then last_stored (chats st2) ?sid (ac_userId ac)
               = Some (Message Assistant (Text (concat (chunks_of evs2))))
          else chats st2 = chats st1)"
  proof cases
    case sse
    show ?thesis
      by (rule turn_done_persist [OF sse])
         (simp_all add: saveCompletedChat_quiet saveCompletedChat_last saveCompletedChat_stored [OF ec])
  next
    case gem
    show ?thesis
      by (rule turn_done_persist [OF gem])
         (simp_all add: save_gemini_turn_quiet save_gemini_turn_last save_gemini_turn_stored [OF ec])
  qed
  then have "last_message (conversation st' ?sid) = Some (Message Assistant (Text (concat (chunks_of evs))))
       \<and> (if env_db_ok e \<and> session_free (chats st) ?sid (ac_userId ac)
             \<and> lookup_chat e (chats st) ?sid (ac_userId ac) = find_chat (chats st) ?sid (ac_userId ac)
          then last_stored (chats st') ?sid (ac_userId ac)
               = Some (Message Assistant (Text (concat (chunks_of evs))))
          else chats st' = chats st)"
    by (simp add: ch eq(2) c1)
  with turn(1) auth show ?thesis by blast
qed

theorem streamed_reply_is_persisted_witness:
  "Write Done \<in> set (fst (stream_handler env_demo st_empty req_hello))
   \<and> fst (stream_handler env_demo st_empty req_hello)
      = [SetSSEHeaders, GetUser, SubscriptionLookup, ChatLookup, ChatCount, PremiumGate, Net OpenAI,
         Write (Chunk ''Hel''), Write (Chunk ''lo''), Write Done, End, DbInsert]
   \<and> concat (chunks_of (fst (stream_handler env_demo st_empty req_hello))) = ''Hello''
   \<and> last_message (conversation (snd (stream_handler env_demo st_empty req_hello)) ''s1'')
      = Some (Message Assistant (Text ''Hello''))
   \<and> last_stored (chats (snd (stream_handler env_demo st_empty req_hello))) ''s1'' ''u1''
      = Some (Message Assistant (Text ''Hello''))"
proof -
  obtain evs st' where h: "stream_handler env_demo st_empty req_hello = (evs, st')"
    by (cases "stream_handler env_demo st_empty req_hello")
  have ev: "fst (stream_handler env_demo st_empty req_hello)
      = [SetSSEHeaders, GetUser, SubscriptionLookup, ChatLookup, ChatCount, PremiumGate, Net OpenAI,
         Write (Chunk ''Hel''), Write (Chunk ''lo''), Write Done, End, DbInsert]"
    by code_simp
  then have d: "Write Done \<in> set evs" using h by simp
  have lm: "last_message (conversation (snd (stream_handler env_demo st_empty req_hello)) ''s1'')
      = Some (Message Assistant (Text ''Hello''))" by code_simp
  have ls: "last_stored (chats (snd (stream_handler env_demo st_empty req_hello))) ''s1'' ''u1''
      = Some (Message Assistant (Text ''Hello''))" by code_simp
  have cc: "concat (chunks_of (fst (stream_handler env_demo st_empty req_hello))) = ''Hello''"
    by (simp add: ev chunks_of_def)
  show ?thesis
    using streamed_reply_is_persisted [OF h d] h ev lm ls cc by simp
qed

section \<open>Order of access control, attachments and provider calls\<close>

text \<open>
  \<^term>\<open>all_before P Q evs\<close>: no event of class \<open>P\<close> at or after the first event of
  class \<open>Q\<close>.
\<close>


definition all_before :: "(event \<Rightarrow> bool) \<Rightarrow> (event \<Rightarrow> bool) \<Rightarrow> event list \<Rightarrow> bool" where
  "all_before P Q evs = (\<not> list_ex P (dropWhile (\<lambda>ev. \<not> Q ev) evs))"

definition is_entry :: "event \<Rightarrow> bool" where
  "is_entry ev = (ev = SetSSEHeaders \<or> ev = GetUser \<or> is_subscription_or_quota ev)"

definition is_gate :: "event \<Rightarrow> bool" where
  "is_gate ev = (ev = ProcessUploads \<or> ev = PremiumGate \<or> is_error_end ev
                 \<or> (case ev of StatusJson c m \<Rightarrow> True | _ \<Rightarrow> False))"

definition is_chat_gate :: "event \<Rightarrow> bool" where
  "is_chat_gate ev = (is_gate ev \<or> is_fs ev)"

definition is_fs_or_net :: "event \<Rightarrow> bool" where
  "is_fs_or_net ev = (is_fs ev \<or> is_net ev)"

definition access_ordered :: "event list \<Rightarrow> bool" where
  "access_ordered evs =
     (all_before is_subscription_or_quota is_cost evs
      \<and> all_before is_access is_net evs
      \<and> (list_ex is_cost evs \<longrightarrow> ChatLookup \<in> set evs)
      \<and> (list_ex is_net evs \<longrightarrow> PremiumGate \<in> set evs))"

lemma all_before_skip:
  "\<not> list_ex Q xs \<Longrightarrow> all_before P Q (xs @ ys) = all_before P Q ys"
  by (induction xs) (simp_all add: all_before_def)

lemma all_before_none: "\<not> list_ex P ys \<Longrightarrow> all_before P Q ys"
  unfolding all_before_def list_ex_iff using set_dropWhileD by fastforce

lemma entry_sq: "list_all is_subscription_or_quota evs \<Longrightarrow> list_all is_entry evs"
  by (induction evs) (simp_all add: is_entry_def)

lemma chat_gate_gate: "list_all is_gate evs \<Longrightarrow> list_all is_chat_gate evs"
  by (induction evs) (simp_all add: is_chat_gate_def)

lemma entry_no_cost: "is_entry ev \<Longrightarrow> \<not> is_cost ev \<and> \<not> is_fs_or_net ev \<and> \<not> is_net ev"
  by (cases ev)
     (simp_all add: is_entry_def is_cost_def is_attachment_def is_net_def is_fs_or_net_def is_fs_def
        is_subscription_or_quota_def)

lemma gate_no_io: "is_gate ev \<Longrightarrow> \<not> is_fs_or_net ev \<and> \<not> is_subscription_or_quota ev"
  by (cases ev)
     (simp_all add: is_gate_def is_net_def is_fs_or_net_def is_fs_def is_error_end_def
        is_subscription_or_quota_def)

lemma chat_gate_no_net: "is_chat_gate ev \<Longrightarrow> \<not> is_net ev \<and> \<not> is_subscription_or_quota ev"
  by (cases ev)
     (simp_all add: is_chat_gate_def is_gate_def is_net_def is_fs_def is_error_end_def
        is_subscription_or_quota_def)

lemma turn_no_access: "is_turn ev \<Longrightarrow> \<not> is_access ev \<and> \<not> is_subscription_or_quota ev"
  by (simp add: is_turn_def is_access_def)

lemma ordered_structure:
  assumes "list_all is_entry A1" "list_all is_chat_gate A2" "list_all is_turn T"
  shows "all_before is_subscription_or_quota is_cost (A1 @ A2 @ T)"
    and "all_before is_access is_net (A1 @ A2 @ T)"
proof -
  have a1: "\<not> list_ex is_cost A1" "\<not> list_ex is_net A1"
    using assms(1) entry_no_cost by (auto simp: list_all_iff list_ex_iff)
  have a2: "\<not> list_ex is_net A2" "\<not> list_ex is_subscription_or_quota A2"
    using assms(2) chat_gate_no_net by (auto simp: list_all_iff list_ex_iff)
  have t: "\<not> list_ex is_access T" "\<not> list_ex is_subscription_or_quota T"
    using assms(3) turn_no_access by (auto simp: list_all_iff list_ex_iff)
  have "\<not> list_ex is_subscription_or_quota (A2 @ T)"
    using a2(2) t(2) by simp
  then show "all_before is_subscription_or_quota is_cost (A1 @ A2 @ T)"
    using all_before_skip [OF a1(1)] all_before_none by blast
  have "\<not> list_ex is_net (A1 @ A2)"
    using a1(2) a2(1) by simp
  from all_before_skip [OF this, of is_access T] all_before_none [OF t(1), of is_net]
  show "all_before is_access is_net (A1 @ A2 @ T)"
    by simp
qed

lemma gate_structure:
  assumes "list_all is_entry A1" "list_all is_gate A2" "list_all is_turn T"
  shows "all_before is_access is_fs_or_net (A1 @ A2 @ T)"
proof -
  have a1: "\<not> list_ex is_fs_or_net A1"
    using assms(1) entry_no_cost by (auto simp: list_all_iff list_ex_iff)
  have a2: "\<not> list_ex is_fs_or_net A2"
    using assms(2) gate_no_io by (auto simp: list_all_iff list_ex_iff)
  have t: "\<not> list_ex is_access T"
    using assms(3) turn_no_access by (auto simp: list_all_iff list_ex_iff)
  have "\<not> list_ex is_fs_or_net (A1 @ A2)"
    using a1 a2 by simp
  from all_before_skip [OF this, of is_access T] all_before_none [OF t, of is_fs_or_net]
  show ?thesis by simp
qed

lemma stream_gate_tail: "list_all is_gate (fst (stream_gate e st req uid sub ec))"
  using upload_stage_events [of e req st]
  by (cases "upload_stage e req st")
     (simp add: stream_gate_def Let_def sse_error_def is_gate_def split: prod.splits if_splits)

lemma chat_gate_tail: "list_all is_chat_gate (fst (chat_gate e st req uid sub ec))"
proof -
  obtain evs3 st2 where u: "upload_stage e req st = (evs3, st2)"
    by (cases "upload_stage e req st")
  let ?tf = "filter (\<lambda>f. \<not> is_image f) (req_files req)"
  obtain evs_t tc where t: "textFilesContent e ?tf = (evs_t, tc)"
    by (cases "textFilesContent e ?tf")
  have f3: "list_all is_chat_gate evs3"
    using upload_stage_events [of e req st] u by (simp add: is_chat_gate_def is_gate_def split: if_splits)
  have "list_all is_fs evs_t"
    using textFilesContent_fs [of e ?tf] t by simp
  then have ft: "list_all is_chat_gate evs_t"
    by (induction evs_t) (simp_all add: is_chat_gate_def)
  show ?thesis
    using u t f3 ft by (simp add: chat_gate_def Let_def is_chat_gate_def is_gate_def split: prod.splits)
qed

lemma stream_gate_passed:
  "stream_gate e st req uid sub ec = (evs, st', Proceed ac) \<Longrightarrow> PremiumGate \<in> set evs"
  by (cases "upload_stage e req st")
     (auto simp: stream_gate_def Let_def split: prod.splits if_splits)

lemma chat_gate_passed:
  "chat_gate e st req uid sub ec = (evs, st', Proceed ca) \<Longrightarrow> PremiumGate \<in> set evs"
  by (cases "upload_stage e req st")
     (auto simp: chat_gate_def Let_def split: prod.splits if_splits)

lemma stream_quota_structure:
  "\<exists>A1 A2. fst (stream_quota e st req uid) = A1 @ A2 \<and> list_all is_entry A1
      \<and> list_all is_gate A2 \<and> ChatLookup \<in> set A1
      \<and> ((\<exists>ac. snd (snd (stream_quota e st req uid)) = Proceed ac) \<longrightarrow> PremiumGate \<in> set A2)"
proof -
  obtain evs1 sub st1 where s: "isUserSubscribed e st uid = (evs1, sub, st1)"
    by (cases "isUserSubscribed e st uid") auto
  let ?ec = "lookup_chat e (chats st1) (req_sessionId req) uid"
  obtain evs2 q where q: "check_quota e (chats st1) sub ?ec uid = (evs2, q)"
    by (cases "check_quota e (chats st1) sub ?ec uid")
  obtain evs3 st4 r where g: "stream_gate e st1 req uid sub ?ec = (evs3, st4, r)"
    by (cases "stream_gate e st1 req uid sub ?ec") auto
  let ?A1 = "[SetSSEHeaders, GetUser] @ evs1 @ [ChatLookup] @ evs2"
  have e1: "list_all is_entry evs1"
    using isUserSubscribed_events [of e st uid] s by (simp add: entry_sq)
  have e2: "list_all is_entry evs2"
    using check_quota_events [of e "chats st1" sub ?ec uid] q by (simp add: entry_sq)
  have a1: "list_all is_entry ?A1" "ChatLookup \<in> set ?A1"
    using e1 e2 by (simp_all add: is_entry_def is_subscription_or_quota_def)
  have t3: "list_all is_gate evs3"
    using stream_gate_tail [of e st1 req uid sub ?ec] g by simp
  have p3: "(\<exists>ac. r = Proceed ac) \<longrightarrow> PremiumGate \<in> set evs3"
    using stream_gate_passed g by blast
  have "\<exists>A2. fst (stream_quota e st req uid) = ?A1 @ A2 \<and> list_all is_gate A2
      \<and> ((\<exists>ac. snd (snd (stream_quota e st req uid)) = Proceed ac) \<longrightarrow> PremiumGate \<in> set A2)"
    using s q g t3 p3
    by (cases q) (simp_all add: stream_quota_def Let_def sse_error_def is_gate_def)
  with a1 show ?thesis by blast
qed

lemma chat_quota_structure:
  "\<exists>A1 A2. fst (chat_quota e st req uid) = A1 @ A2 \<and> list_all is_entry A1
      \<and> list_all is_chat_gate A2 \<and> ChatLookup \<in> set A1
      \<and> ((\<exists>ca. snd (snd (chat_quota e st req uid)) = Proceed ca) \<longrightarrow> PremiumGate \<in> set A2)"
proof -
  obtain evs1 sub st1 where s: "isUserSubscribed e st uid = (evs1, sub, st1)"
    by (cases "isUserSubscribed e st uid") auto
  let ?ec = "lookup_chat e (chats st1) (req_sessionId req) uid"
  obtain evs2 q where q: "check_quota e (chats st1) sub ?ec uid = (evs2, q)"
    by (cases "check_quota e (chats st1) sub ?ec uid")
  obtain evs3 st4 r where g: "chat_gate e st1 req uid sub ?ec = (evs3, st4, r)"
    by (cases "chat_gate e st1 req uid sub ?ec") auto
  let ?A1 = "[GetUser] @ evs1 @ [ChatLookup] @ evs2"
  have e1: "list_all is_entry evs1"
    using isUserSubscribed_events [of e st uid] s by (simp add: entry_sq)
  have e2: "list_all is_entry evs2"
    using check_quota_events [of e "chats st1" sub ?ec uid] q by (simp add: entry_sq)
  have a1: "list_all is_entry ?A1" "ChatLookup \<in> set ?A1"
    using e1 e2 by (simp_all add: is_entry_def is_subscription_or_quota_def)
  have t3: "list_all is_chat_gate evs3"
    using chat_gate_tail [of e st1 req uid sub ?ec] g by simp
  have p3: "(\<exists>ca. r = Proceed ca) \<longrightarrow> PremiumGate \<in> set evs3"
    using chat_gate_passed g by blast
  have "\<exists>A2. fst (chat_quota e st req uid) = ?A1 @ A2 \<and> list_all is_chat_gate A2
      \<and> ((\<exists>ca. snd (snd (chat_quota e st req uid)) = Proceed ca) \<longrightarrow> PremiumGate \<in> set A2)"
    using s q g t3 p3
    by (cases q) (simp_all add: chat_quota_def Let_def is_chat_gate_def is_gate_def)
  with a1 show ?thesis by blast
qed

text \<open>
  The events of the access stage: entry events (authentication, subscription, quotas),
  then the gate events. A request that is let through met the chat lookup among the
  entry events and the premium gate among the gate events; a request that is turned away
  without the chat lookup has no gate event but its reply.
\<close>

lemma stream_access_structure:
  "\<exists>A1 A2. fst (stream_access e st req token) = A1 @ A2 \<and> list_all is_entry A1
      \<and> list_all is_gate A2
      \<and> (ChatLookup \<in> set A1 \<or> list_all is_error_end A2)
      \<and> ((\<exists>ac. snd (snd (stream_access e st req token)) = Proceed ac)
           \<longrightarrow> ChatLookup \<in> set A1 \<and> PremiumGate \<in> set A2)"
proof (cases "env_getUser e token")
  case (AuthUser uid)
  then show ?thesis
    using stream_quota_structure [of e st req uid] by (simp add: stream_access_def) blast
next
  case (AuthError m)
  let ?A2 = "sse_error (''Authentication failed: '' @ m)"
  have "fst (stream_access e st req token) = [SetSSEHeaders, GetUser] @ ?A2"
    "snd (snd (stream_access e st req token)) = Replied"
    using AuthError by (simp_all add: stream_access_def)
  moreover have "list_all is_entry [SetSSEHeaders, GetUser]" "list_all is_gate ?A2"
    "list_all is_error_end ?A2"
    by (simp_all add: is_entry_def sse_error_def is_gate_def)
  ultimately show ?thesis by (metis stage.distinct(1))
next
  case NoUser
  let ?A2 = "sse_error ''No user found for this token''"
  have "fst (stream_access e st req token) = [SetSSEHeaders, GetUser] @ ?A2"
    "snd (snd (stream_access e st req token)) = Replied"
    using NoUser by (simp_all add: stream_access_def)
  moreover have "list_all is_entry [SetSSEHeaders, GetUser]" "list_all is_gate ?A2"
    "list_all is_error_end ?A2"
    by (simp_all add: is_entry_def sse_error_def is_gate_def)
  ultimately show ?thesis by (metis stage.distinct(1))
next
  case (AuthThrows m)
  let ?A2 = "sse_error ''Authentication error''"
  have "fst (stream_access e st req token) = [SetSSEHeaders, GetUser] @ ?A2"
    "snd (snd (stream_access e st req token)) = Replied"
    using AuthThrows by (simp_all add: stream_access_def)
  moreover have "list_all is_entry [SetSSEHeaders, GetUser]" "list_all is_gate ?A2"
    "list_all is_error_end ?A2"
    by (simp_all add: is_entry_def sse_error_def is_gate_def)
  ultimately show ?thesis by (metis stage.distinct(1))
qed

definition is_status :: "event \<Rightarrow> bool" where
  "is_status ev = (case ev of StatusJson c m \<Rightarrow> True | _ \<Rightarrow> False)"

lemma chat_access_structure:
  "\<exists>A1 A2. fst (chat_access e st req token) = A1 @ A2 \<and> list_all is_entry A1
      \<and> list_all is_chat_gate A2
      \<and> (ChatLookup \<in> set A1 \<or> list_all is_status A2)
      \<and> ((\<exists>ca. snd (snd (chat_access e st req token)) = Proceed ca)
           \<longrightarrow> ChatLookup \<in> set A1 \<and> PremiumGate \<in> set A2)"
proof (cases "env_getUser e token")
  case (AuthUser uid)
  then show ?thesis
    using chat_quota_structure [of e st req uid] by (simp add: chat_access_def) blast
next
  case (AuthError m)
  let ?A2 = "[StatusJson 401 (''Authentication failed: '' @ m)]"
  have "fst (chat_access e st req token) = [GetUser] @ ?A2"
    "snd (snd (chat_access e st req token)) = Replied"
    using AuthError by (simp_all add: chat_access_def)
  moreover have "list_all is_entry [GetUser]" "list_all is_chat_gate ?A2" "list_all is_status ?A2"
    by (simp_all add: is_entry_def is_chat_gate_def is_gate_def is_status_def)
  ultimately show ?thesis by (metis stage.distinct(1))
next
  case NoUser
  let ?A2 = "[StatusJson 401 ''No user found for this token'']"
  have "fst (chat_access e st req token) = [GetUser] @ ?A2"
    "snd (snd (chat_access e st req token)) = Replied"
    using NoUser by (simp_all add: chat_access_def)
  moreover have "list_all is_entry [GetUser]" "list_all is_chat_gate ?A2" "list_all is_status ?A2"
    by (simp_all add: is_entry_def is_chat_gate_def is_gate_def is_status_def)
  ultimately show ?thesis by (metis stage.distinct(1))
next
  case (AuthThrows m)
  let ?A2 = "[StatusJson 500 ''Authentication error'']"
  have "fst (chat_access e st req token) = [GetUser] @ ?A2"
    "snd (snd (chat_access e st req token)) = Replied"
    using AuthThrows by (simp_all add: chat_access_def)
  moreover have "list_all is_entry [GetUser]" "list_all is_chat_gate ?A2" "list_all is_status ?A2"
    by (simp_all add: is_entry_def is_chat_gate_def is_gate_def is_status_def)
  ultimately show ?thesis by (metis stage.distinct(1))
qed


section \<open>Events of a turn\<close>

lemma turn_io: "list_all is_provider_io evs \<Longrightarrow> list_all is_turn evs"
proof (induction evs)
  case (Cons ev evs)
  then have "is_provider_io ev" by simp
  then have "is_turn ev"
    by (cases ev)
       (simp_all add: is_provider_io_def is_net_def is_fs_def is_turn_def is_access_def
          is_subscription_or_quota_def)
  with Cons show ?case by simp
qed simp

lemma turn_error_end: "list_all is_error_end evs \<Longrightarrow> list_all is_turn evs"
proof (induction evs)
  case (Cons ev evs)
  then have "is_error_end ev" by simp
  then have "is_turn ev"
    by (cases ev)
       (simp_all add: is_error_end_def is_turn_def is_access_def is_subscription_or_quota_def)
  with Cons show ?case by simp
qed simp

lemma turn_chunk_writes: "list_all is_turn (chunk_writes cs)"
  by (induction cs) (simp_all add: is_turn_def is_access_def is_subscription_or_quota_def)

lemma turn_save_chat: "list_all is_turn (fst (save_chat e sid uid u a ec st))"
  using save_chat_events [of e sid uid u a ec st]
  by (auto simp: is_turn_def is_access_def is_subscription_or_quota_def)

lemma turn_saveCompletedChat: "list_all is_turn (fst (saveCompletedChat e sid uid u ec c st))"
  by (simp add: saveCompletedChat_def Let_def turn_save_chat)

lemma turn_save_gemini_turn: "list_all is_turn (fst (save_gemini_turn e sid uid u ec c st))"
  by (simp add: save_gemini_turn_def Let_def turn_save_chat)

lemma turn_done_events:
  assumes "turn_done save st (evs, st')" "\<And>c. list_all is_turn (fst (save c st))"
  shows "list_all is_turn evs"
proof -
  from assms(1) obtain pre cs where io: "list_all is_provider_io pre"
    and evs: "evs = pre @ chunk_writes cs @ [Write Done, End] @ fst (save (concat cs) st)"
    unfolding turn_done_def by auto
  have "list_all is_turn [Write Done, End]"
    by (simp add: is_turn_def is_access_def is_subscription_or_quota_def)
  then show ?thesis
    unfolding evs using turn_io [OF io] turn_chunk_writes [of cs] assms(2) [of "concat cs"]
    by simp
qed

lemma turn_failed_events:
  assumes "turn_failed st (evs, st')"
  shows "list_all is_turn evs"
proof -
  from assms obtain pre cs errs where io: "list_all is_provider_io pre"
    and er: "list_all is_error_end errs" and evs: "evs = pre @ chunk_writes cs @ errs"
    unfolding turn_failed_def by auto
  show ?thesis
    unfolding evs using turn_io [OF io] turn_chunk_writes [of cs] turn_error_end [OF er] by simp
qed

lemma stream_turn_events: "list_all is_turn (fst (stream_turn e st req ac))"
proof -
  obtain evs st' where t: "stream_turn e st req ac = (evs, st')"
    by (cases "stream_turn e st req ac")
  show ?thesis
    using stream_turn_outcome [of e req ac st] turn_done_events turn_failed_events
      turn_saveCompletedChat turn_save_gemini_turn
    unfolding t by (metis fst_conv)
qed

lemma chat_attach_fs: "list_all is_fs (fst (chat_attach e target imgs uc msgs))"
  using validImageContents_fs [of "env_fs e" imgs target]
  by (cases "validImageContents (env_fs e) imgs target") (simp add: chat_attach_def)

lemma chat_images_fs: "list_all is_fs (fst (chat_images e m imgs uc msgs))"
  by (simp add: chat_images_def chat_attach_fs)

lemma chat_dispatch_io: "list_all is_provider_io (fst (chat_dispatch e m uc imgs msgs))"
  using generateGeminiResponse_io [of "env_penv e" "env_fs e" "env_gemini e" uc m imgs]
  by (simp add: chat_dispatch_def generateClaudeResponse_def generateGrokResponse_def
        generateOpenAIResponse_def json_call_def is_provider_io_def is_net_def Let_def)

lemma chat_turn_events: "list_all is_turn (fst (chat_turn e st req ca))"
proof -
  let ?ac = "ca_access ca"
  let ?m = "ac_selectedModel ?ac"
  obtain evs_i msgs where i: "chat_images e ?m (ca_imageFiles ca) (ca_userContent ca)
                                 (conversation st (req_sessionId req)) = (evs_i, msgs)"
    by (cases "chat_images e ?m (ca_imageFiles ca) (ca_userContent ca)
                 (conversation st (req_sessionId req))")
  obtain evs_d r where d: "chat_dispatch e ?m (ca_userContent ca) (ca_imageFiles ca) msgs = (evs_d, r)"
    by (cases "chat_dispatch e ?m (ca_userContent ca) (ca_imageFiles ca) msgs")
  have ti: "list_all is_turn evs_i"
    using chat_images_fs [of e ?m "ca_imageFiles ca" "ca_userContent ca"
            "conversation st (req_sessionId req)"] i
    by (simp add: io_fs turn_io)
  have td: "list_all is_turn evs_d"
    using chat_dispatch_io [of e ?m "ca_userContent ca" "ca_imageFiles ca" msgs] d
    by (simp add: turn_io)
  have reply: "\<And>c m. is_turn (StatusJson c m)" "\<And>b. is_turn (ReplyJson b)"
    by (simp_all add: is_turn_def is_access_def is_subscription_or_quota_def)
  show ?thesis
  proof (cases r)
    case (Inl err)
    then show ?thesis
      using i d ti td reply by (simp add: chat_turn_def Let_def)
  next
    case (Inr botReply)
    let ?st1 = "push_message (req_sessionId req) (Message Assistant (Text botReply)) st"
    obtain evs_s st2 where s: "save_chat e (req_sessionId req) (ac_userId ?ac) (ca_userContent ca)
                                 botReply (ac_existingChat ?ac) ?st1 = (evs_s, st2)"
      by (cases "save_chat e (req_sessionId req) (ac_userId ?ac) (ca_userContent ca)
                   botReply (ac_existingChat ?ac) ?st1")
    have ts: "list_all is_turn evs_s"
      using turn_save_chat [of e "req_sessionId req" "ac_userId ?ac" "ca_userContent ca"
              botReply "ac_existingChat ?ac" ?st1] s by simp
    show ?thesis
      using Inr i d s ti td ts reply by (simp add: chat_turn_def Let_def)
  qed
qed

section \<open>Order of the access checks\<close>

lemma status_is_gate: "is_status ev \<Longrightarrow> is_gate ev"
  by (simp add: is_status_def is_gate_def)

lemma stream_intake_status: "stream_intake req = Inl reply \<Longrightarrow> is_status reply"
  by (auto simp: stream_intake_def auth_header_def is_status_def split: if_splits option.splits)

lemma chat_intake_status: "chat_intake req = Inl reply \<Longrightarrow> is_status reply"
  by (auto simp: chat_intake_def auth_header_def is_status_def split: if_splits option.splits)

lemma status_no_cost: "list_all is_status evs \<Longrightarrow> \<not> list_ex is_cost evs"
proof (induction evs)
  case (Cons ev evs)
  then have "is_status ev" by simp
  then have "\<not> is_cost ev"
    by (cases ev) (simp_all add: is_status_def is_cost_def is_attachment_def is_net_def)
  with Cons show ?case by simp
qed simp

lemma error_end_no_cost: "list_all is_error_end evs \<Longrightarrow> \<not> list_ex is_cost evs"
proof (induction evs)
  case (Cons ev evs)
  then have "is_error_end ev" by simp
  then have "\<not> is_cost ev"
    by (cases ev) (simp_all add: is_error_end_def is_cost_def is_attachment_def is_net_def)
  with Cons show ?case by simp
qed simp

lemma entry_list_no_cost: "list_all is_entry evs \<Longrightarrow> \<not> list_ex is_cost evs \<and> \<not> list_ex is_net evs"
  using entry_no_cost by (auto simp: list_all_iff list_ex_iff)

lemma chat_gate_list_no_net: "list_all is_chat_gate evs \<Longrightarrow> \<not> list_ex is_net evs"
  using chat_gate_no_net by (auto simp: list_all_iff list_ex_iff)

text \<open>
  The events of a request to the streaming route: entry events, gate events, turn
  events. The chat lookup is among the entry events unless the gate events are the
  reply alone, and a request with turn events passed the premium gate.
\<close>

lemma stream_handler_structure:
  "\<exists>A1 A2 T. fst (stream_handler e st req) = A1 @ A2 @ T \<and> list_all is_entry A1
      \<and> list_all is_gate A2 \<and> list_all is_turn T
      \<and> (ChatLookup \<in> set A1 \<or> list_all is_error_end A2 \<or> list_all is_status A2)
      \<and> (T \<noteq> [] \<longrightarrow> ChatLookup \<in> set A1 \<and> PremiumGate \<in> set A2)"
proof (cases rule: stream_handler_cases [of req e st])
  case (intake reply)
  have "fst (stream_handler e st req) = [] @ [reply] @ []" "list_all is_status [reply]"
    "list_all is_gate [reply]"
    using intake stream_intake_status [of req reply] by (simp_all add: status_is_gate)
  moreover have "list_all is_entry []" "list_all is_turn []" by simp_all
  ultimately show ?thesis by blast
next
  case (replied token evs st1)
  from stream_access_structure [of e st req token] obtain A1 A2 where
    "fst (stream_access e st req token) = A1 @ A2" "list_all is_entry A1" "list_all is_gate A2"
    "ChatLookup \<in> set A1 \<or> list_all is_error_end A2"
    by blast
  then have "fst (stream_handler e st req) = A1 @ A2 @ []" "list_all is_entry A1"
    "list_all is_gate A2" "ChatLookup \<in> set A1 \<or> list_all is_error_end A2"
    using replied by simp_all
  moreover have "list_all is_entry []" "list_all is_turn []" by simp_all
  ultimately show ?thesis by blast
next
  case (turn token evs st1 ac evs2 st2)
  from stream_access_structure [of e st req token] turn(2) obtain A1 A2 where
    a: "evs = A1 @ A2" "list_all is_entry A1" "list_all is_gate A2"
    "ChatLookup \<in> set A1" "PremiumGate \<in> set A2"
    by auto
  have t: "list_all is_turn evs2"
    using stream_turn_events [of e st1 req ac] turn(3) by simp
  have "fst (stream_handler e st req) = A1 @ A2 @ evs2"
    using turn(4) a(1) by simp
  with a t show ?thesis by blast
qed

lemma chat_handler_structure:
  "\<exists>A1 A2 T. fst (chat_handler e st req) = A1 @ A2 @ T \<and> list_all is_entry A1
      \<and> list_all is_chat_gate A2 \<and> list_all is_turn T
      \<and> (ChatLookup \<in> set A1 \<or> list_all is_status A2)
      \<and> (T \<noteq> [] \<longrightarrow> ChatLookup \<in> set A1 \<and> PremiumGate \<in> set A2)"
proof (cases rule: chat_handler_cases [of req e st])
  case (intake reply)
  have "fst (chat_handler e st req) = [] @ [reply] @ []" "list_all is_status [reply]"
    "list_all is_chat_gate [reply]"
    using intake chat_intake_status [of req reply]
    by (simp_all add: status_is_gate is_chat_gate_def)
  moreover have "list_all is_entry []" "list_all is_turn []" by simp_all
  ultimately show ?thesis by blast
next
  case (replied token evs st1)
  from chat_access_structure [of e st req token] obtain A1 A2 where
    "fst (chat_access e st req token) = A1 @ A2" "list_all is_entry A1" "list_all is_chat_gate A2"
    "ChatLookup \<in> set A1 \<or> list_all is_status A2"
    by blast
  then have "fst (chat_handler e st req) = A1 @ A2 @ []" "list_all is_entry A1"
    "list_all is_chat_gate A2" "ChatLookup \<in> set A1 \<or> list_all is_status A2"
    using replied by simp_all
  moreover have "list_all is_entry []" "list_all is_turn []" by simp_all
  ultimately show ?thesis by blast
next
  case (turn token evs st1 ca evs2 st2)
  from chat_access_structure [of e st req token] turn(2) obtain A1 A2 where
    a: "evs = A1 @ A2" "list_all is_entry A1" "list_all is_chat_gate A2"
    "ChatLookup \<in> set A1" "PremiumGate \<in> set A2"
    by auto
  have t: "list_all is_turn evs2"
    using chat_turn_events [of e st1 req ca] turn(3) by simp
  have "fst (chat_handler e st req) = A1 @ A2 @ evs2"
    using turn(4) a(1) by simp
  with a t show ?thesis by blast
qed

lemma structure_ordered:
  assumes "list_all is_entry A1" "list_all is_chat_gate A2" "list_all is_turn T"
    "ChatLookup \<in> set A1 \<or> list_all is_error_end A2 \<or> list_all is_status A2"
    "T \<noteq> [] \<longrightarrow> ChatLookup \<in> set A1 \<and> PremiumGate \<in> set A2"
  shows "access_ordered (A1 @ A2 @ T)"
proof -
  have cost: "ChatLookup \<in> set (A1 @ A2 @ T)" if c: "list_ex is_cost (A1 @ A2 @ T)"
  proof (cases "T = []")
    case True
    with c entry_list_no_cost [OF assms(1)] have "list_ex is_cost A2" by simp
    with assms(4) status_no_cost [of A2] error_end_no_cost [of A2] show ?thesis by auto
  next
    case False
    with assms(5) show ?thesis by simp
  qed
  have net: "PremiumGate \<in> set (A1 @ A2 @ T)" if n: "list_ex is_net (A1 @ A2 @ T)"
  proof -
    from n entry_list_no_cost [OF assms(1)] chat_gate_list_no_net [OF assms(2)]
    have "T \<noteq> []" by auto
    with assms(5) show ?thesis by simp
  qed
  show ?thesis
    unfolding access_ordered_def
    using ordered_structure [OF assms(1-3)] cost net by blast
qed

lemma stream_handler_ordered: "access_ordered (fst (stream_handler e st req))"
proof -
  from stream_handler_structure [of e st req] obtain A1 A2 T where
    s: "fst (stream_handler e st req) = A1 @ A2 @ T" "list_all is_entry A1" "list_all is_gate A2"
    "list_all is_turn T"
    "ChatLookup \<in> set A1 \<or> list_all is_error_end A2 \<or> list_all is_status A2"
    "T \<noteq> [] \<longrightarrow> ChatLookup \<in> set A1 \<and> PremiumGate \<in> set A2"
    by blast
  show ?thesis
    unfolding s(1) by (rule structure_ordered [OF s(2) chat_gate_gate [OF s(3)] s(4) s(5) s(6)])
qed

lemma stream_handler_gate_first: "all_before is_access is_fs_or_net (fst (stream_handler e st req))"
proof -
  from stream_handler_structure [of e st req] obtain A1 A2 T where
    s: "fst (stream_handler e st req) = A1 @ A2 @ T" "list_all is_entry A1" "list_all is_gate A2"
    "list_all is_turn T"
    by blast
  show ?thesis
    unfolding s(1) by (rule gate_structure [OF s(2) s(3) s(4)])
qed

lemma chat_handler_ordered: "access_ordered (fst (chat_handler e st req))"
proof -
  from chat_handler_structure [of e st req] obtain A1 A2 T where
    s: "fst (chat_handler e st req) = A1 @ A2 @ T" "list_all is_entry A1" "list_all is_chat_gate A2"
    "list_all is_turn T"
    "ChatLookup \<in> set A1 \<or> list_all is_status A2"
    "T \<noteq> [] \<longrightarrow> ChatLookup \<in> set A1 \<and> PremiumGate \<in> set A2"
    by blast
  have c: "ChatLookup \<in> set A1 \<or> list_all is_error_end A2 \<or> list_all is_status A2"
    using s(5) by blast
  show ?thesis
    unfolding s(1) by (rule structure_ordered [OF s(2) s(3) s(4) c s(6)])
qed

definition req_cat :: request where
  "req_cat = req_hello\<lparr>req_files := [cat_png]\<rparr>"

text \<open>
  C5 as stated: on every request every access-control event (subscription resolution,
  the quota lookups, the premium gate) comes before the first cost (the registration of
  the uploads, a file-system call, a provider call). It fails on both routes: an
  unsubscribed user who sends an image with a premium model has the uploads registered
  before the premium gate turns the request away.
\<close>

theorem premium_gate_follows_upload_registration:
  "fst (chat_handler env_demo st_empty req_gpt4)
     = [GetUser, SubscriptionLookup, ChatLookup, ChatCount, ProcessUploads, PremiumGate,
        StatusJson 403 premium_denied]
   \<and> \<not> all_before is_access is_cost (fst (chat_handler env_demo st_empty req_gpt4))
   \<and> fst (stream_handler env_demo st_empty req_gpt4)
     = [SetSSEHeaders, GetUser, SubscriptionLookup, ChatLookup, ChatCount, ProcessUploads,
        PremiumGate, Write (Error premium_denied), End]
   \<and> \<not> all_before is_access is_cost (fst (stream_handler env_demo st_empty req_gpt4))"
proof -
  have c: "fst (chat_handler env_demo st_empty req_gpt4)
     = [GetUser, SubscriptionLookup, ChatLookup, ChatCount, ProcessUploads, PremiumGate,
        StatusJson 403 premium_denied]"
    by code_simp
  have s: "fst (stream_handler env_demo st_empty req_gpt4)
     = [SetSSEHeaders, GetUser, SubscriptionLookup, ChatLookup, ChatCount, ProcessUploads,
        PremiumGate, Write (Error premium_denied), End]"
    by code_simp
  show ?thesis
    unfolding c s
    by (simp add: all_before_def is_access_def is_cost_def is_attachment_def is_net_def
          is_subscription_or_quota_def)
qed

text \<open>
  C5, amended. On every request to either chat route: every subscription and quota event
  comes before the first cost, and every access-control event, the premium gate
  included, comes before the first provider call; a trace with a cost holds the chat
  lookup and a trace with a provider call holds the premium gate. In the streaming
  route the premium gate also precedes every file-system call. The registration of the
  uploads is what both routes do before the premium gate.
\<close>

theorem quotas_precede_costs_and_gate_precedes_providers:
  "access_ordered (fst (chat_handler e st req))
   \<and> access_ordered (fst (stream_handler e st req))
   \<and> all_before is_access is_fs_or_net (fst (stream_handler e st req))"
  using chat_handler_ordered [of e st req] stream_handler_ordered [of e st req]
    stream_handler_gate_first [of e st req]
  by simp



theorem quotas_precede_costs_and_gate_precedes_providers_witness:
  "fst (chat_handler env_demo st_empty req_cat)
     = [GetUser, SubscriptionLookup, ChatLookup, ChatCount, ProcessUploads, PremiumGate,
        Stat ''uploads/files-1.png'', Stat ''uploads/files-1.png'',
        ReadFile ''uploads/files-1.png'', Net OpenAI, DbInsert, ReplyJson ''Hello'']
   \<and> list_ex is_cost (fst (chat_handler env_demo st_empty req_cat))
   \<and> list_ex is_net (fst (chat_handler env_demo st_empty req_cat))
   \<and> all_before is_subscription_or_quota is_cost (fst (chat_handler env_demo st_empty req_cat))
   \<and> all_before is_access is_net (fst (chat_handler env_demo st_empty req_cat))
   \<and> ChatLookup \<in> set (fst (chat_handler env_demo st_empty req_cat))
   \<and> PremiumGate \<in> set (fst (chat_handler env_demo st_empty req_cat))"
proof -
  have c: "fst (chat_handler env_demo st_empty req_cat)
     = [GetUser, SubscriptionLookup, ChatLookup, ChatCount, ProcessUploads, PremiumGate,
        Stat ''uploads/files-1.png'', Stat ''uploads/files-1.png'',
        ReadFile ''uploads/files-1.png'', Net OpenAI, DbInsert, ReplyJson ''Hello'']"
    by code_simp
  have x: "list_ex is_cost (fst (chat_handler env_demo st_empty req_cat))"
    "list_ex is_net (fst (chat_handler env_demo st_empty req_cat))"
    unfolding c by (simp_all add: is_cost_def is_attachment_def is_net_def)
  from quotas_precede_costs_and_gate_precedes_providers [of env_demo st_empty req_cat]
  have "access_ordered (fst (chat_handler env_demo st_empty req_cat))" by simp
  with x c show ?thesis
    unfolding access_ordered_def by blast
qed


section \<open>Terminal events of a stream\<close>

definition terminal_events :: "event list \<Rightarrow> event list" where
  "terminal_events evs = filter is_terminal evs"

text \<open>
  The response refuses a \<^verbatim>\<open>res.write\<close> that follows \<^verbatim>\<open>res.end()\<close>: the client
  receives the writes made before the first end. \<^term>\<open>received evs\<close> are the events
  up to that end.
\<close>

definition received :: "event list \<Rightarrow> event list" where
  "received evs = takeWhile (\<lambda>ev. ev \<noteq> End) evs"

definition is_silent :: "event \<Rightarrow> bool" where
  "is_silent ev = (ev \<noteq> End \<and> \<not> is_terminal ev)"

definition is_checkpoint :: "event \<Rightarrow> bool" where
  "is_checkpoint ev =
     (ev = SetSSEHeaders \<or> ev = GetUser \<or> is_subscription_or_quota ev \<or> ev = ProcessUploads
      \<or> ev = PremiumGate)"

text \<open>One terminal event, the last event before the end of the response.\<close>

definition one_terminal :: "event list \<Rightarrow> bool" where
  "one_terminal evs =
     (End \<in> set evs
      \<and> (\<exists>pre t. received evs = pre @ [t] \<and> (t = Write Done \<or> (\<exists>m. t = Write (Error m)))
            \<and> terminal_events (received evs) = [t]))"

lemma silent_checkpoint: "list_all is_checkpoint evs \<Longrightarrow> list_all is_silent evs"
proof (induction evs)
  case (Cons ev evs)
  then have "is_checkpoint ev" by simp
  then have "is_silent ev"
    by (cases ev)
       (simp_all add: is_checkpoint_def is_silent_def is_terminal_def is_subscription_or_quota_def)
  with Cons show ?case by simp
qed simp

lemma silent_io: "list_all is_provider_io evs \<Longrightarrow> list_all is_silent evs"
proof (induction evs)
  case (Cons ev evs)
  then have "is_provider_io ev" by simp
  then have "is_silent ev"
    by (cases ev) (simp_all add: is_provider_io_def is_net_def is_fs_def is_silent_def is_terminal_def)
  with Cons show ?case by simp
qed simp

lemma silent_chunk_writes: "list_all is_silent (chunk_writes cs)"
  by (induction cs) (simp_all add: is_silent_def is_terminal_def)

lemma received_silent:
  "list_all is_silent sil \<Longrightarrow> received (sil @ t # End # rest) = sil @ received (t # End # rest)"
  by (induction sil) (simp_all add: received_def is_silent_def)

lemma terminal_events_silent: "list_all is_silent sil \<Longrightarrow> terminal_events sil = []"
  by (induction sil) (simp_all add: terminal_events_def is_silent_def)

lemma one_terminalI:
  assumes "list_all is_silent sil" "t = Write Done \<or> (\<exists>m. t = Write (Error m))"
  shows "one_terminal (sil @ t # End # rest)"
proof -
  have t: "t \<noteq> End" "is_terminal t" using assms(2) by (auto simp: is_terminal_def)
  have r: "received (sil @ t # End # rest) = sil @ [t]"
    using received_silent [OF assms(1)] t by (simp add: received_def)
  have "terminal_events (sil @ [t]) = [t]"
    using terminal_events_silent [OF assms(1)] t by (simp add: terminal_events_def)
  with r assms(2) show ?thesis
    unfolding one_terminal_def by auto
qed

lemma stream_gate_outcome:
  "(\<exists>pre st'. stream_gate e st req uid sub ec = (pre @ sse_error premium_denied, st', Replied)
       \<and> list_all is_checkpoint pre)
   \<or> (\<exists>evs st' ac. stream_gate e st req uid sub ec = (evs, st', Proceed ac) \<and> list_all is_checkpoint evs)"
proof -
  obtain evs3 st2 where u: "upload_stage e req st = (evs3, st2)"
    by (cases "upload_stage e req st")
  have c: "list_all is_checkpoint (evs3 @ [PremiumGate])"
    using upload_stage_events [of e req st] u by (simp add: is_checkpoint_def)
  let ?st3 = "init_session (req_sessionId req) (req_model req) st2"
  obtain m st4 where sm: "select_model (req_sessionId req) (req_model req) ?st3 = (m, st4)"
    by (cases "select_model (req_sessionId req) (req_model req) ?st3")
  show ?thesis
  proof (cases "isPremiumModel (env_toLowerCase e) m \<and> \<not> sub")
    case True
    then have "stream_gate e st req uid sub ec = ((evs3 @ [PremiumGate]) @ sse_error premium_denied, st4, Replied)"
      using u sm by (simp add: stream_gate_def Let_def)
    with c show ?thesis by blast
  next
    case False
    then have "\<exists>ac. stream_gate e st req uid sub ec = (evs3 @ [PremiumGate], st4, Proceed ac)"
      using u sm by (auto simp: stream_gate_def Let_def)
    with c show ?thesis by blast
  qed
qed

lemma stream_quota_outcome:
  "(\<exists>pre m st'. stream_quota e st req uid = (SetSSEHeaders # pre @ sse_error m, st', Replied)
       \<and> list_all is_checkpoint pre)
   \<or> (\<exists>evs st' ac. stream_quota e st req uid = (SetSSEHeaders # evs, st', Proceed ac)
       \<and> list_all is_checkpoint evs)"
proof -
  obtain evs1 sub st1 where s: "isUserSubscribed e st uid = (evs1, sub, st1)"
    by (cases "isUserSubscribed e st uid") auto
  let ?ec = "lookup_chat e (chats st1) (req_sessionId req) uid"
  obtain evs2 q where q: "check_quota e (chats st1) sub ?ec uid = (evs2, q)"
    by (cases "check_quota e (chats st1) sub ?ec uid")
  let ?pre = "GetUser # evs1 @ [ChatLookup] @ evs2"
  have c1: "list_all is_checkpoint evs1"
    using isUserSubscribed_events [of e st uid] s by (simp add: list_all_iff is_checkpoint_def)
  have c2: "list_all is_checkpoint evs2"
    using check_quota_events [of e "chats st1" sub ?ec uid] q by (simp add: list_all_iff is_checkpoint_def)
  have c: "list_all is_checkpoint ?pre"
    using c1 c2 by (simp add: is_checkpoint_def is_subscription_or_quota_def)
  show ?thesis
  proof (cases q)
    case QuotaNewChat
    have "stream_quota e st req uid = (SetSSEHeaders # ?pre @ sse_error stream_new_chat_denied, st1, Replied)"
      using s q QuotaNewChat by (simp add: stream_quota_def Let_def)
    with c show ?thesis by blast
  next
    case QuotaMessages
    have "stream_quota e st req uid = (SetSSEHeaders # ?pre @ sse_error stream_messages_denied, st1, Replied)"
      using s q QuotaMessages by (simp add: stream_quota_def Let_def)
    with c show ?thesis by blast
  next
    case QuotaOk
    from stream_gate_outcome [of e st1 req uid sub ?ec]
    consider (denied) pre3 st4 where
        "stream_gate e st1 req uid sub ?ec = (pre3 @ sse_error premium_denied, st4, Replied)"
        "list_all is_checkpoint pre3"
      | (passed) evs3 st4 ac where
        "stream_gate e st1 req uid sub ?ec = (evs3, st4, Proceed ac)" "list_all is_checkpoint evs3"
      by blast
    then show ?thesis
    proof cases
      case denied
      have "stream_quota e st req uid
              = (SetSSEHeaders # (?pre @ pre3) @ sse_error premium_denied, st4, Replied)"
        using s q QuotaOk denied(1) by (simp add: stream_quota_def Let_def)
      moreover have "list_all is_checkpoint (?pre @ pre3)" using c denied(2) by simp
      ultimately show ?thesis by blast
    next
      case passed
      have "stream_quota e st req uid = (SetSSEHeaders # (?pre @ evs3), st4, Proceed ac)"
        using s q QuotaOk passed(1) by (simp add: stream_quota_def Let_def)
      moreover have "list_all is_checkpoint (?pre @ evs3)" using c passed(2) by simp
      ultimately show ?thesis by blast
    qed
  qed
qed

lemma stream_access_outcome:
  "(\<exists>pre m st'. stream_access e st req token = (SetSSEHeaders # pre @ sse_error m, st', Replied)
       \<and> list_all is_checkpoint pre)
   \<or> (\<exists>evs st' ac. stream_access e st req token = (SetSSEHeaders # evs, st', Proceed ac)
       \<and> list_all is_checkpoint evs)"
proof (cases "env_getUser e token")
  case (AuthUser uid)
  then show ?thesis
    using stream_quota_outcome [of e st req uid] by (simp add: stream_access_def)
next
  case (AuthError m)
  have c: "list_all is_checkpoint [GetUser]" by (simp add: is_checkpoint_def)
  have "stream_access e st req token
          = (SetSSEHeaders # [GetUser] @ sse_error (''Authentication failed: '' @ m), st, Replied)"
    using AuthError by (simp add: stream_access_def)
  with c show ?thesis by blast
next
  case NoUser
  have c: "list_all is_checkpoint [GetUser]" by (simp add: is_checkpoint_def)
  have "stream_access e st req token
          = (SetSSEHeaders # [GetUser] @ sse_error ''No user found for this token'', st, Replied)"
    using NoUser by (simp add: stream_access_def)
  with c show ?thesis by blast
next
  case (AuthThrows m)
  have c: "list_all is_checkpoint [GetUser]" by (simp add: is_checkpoint_def)
  have "stream_access e st req token
          = (SetSSEHeaders # [GetUser] @ sse_error ''Authentication error'', st, Replied)"
    using AuthThrows by (simp add: stream_access_def)
  with c show ?thesis by blast
qed

lemma stream_turn_terminal:
  assumes "list_all is_silent sil"
  shows "one_terminal (sil @ fst (stream_turn e st req ac))"
proof -
  obtain evs st' where t: "stream_turn e st req ac = (evs, st')"
    by (cases "stream_turn e st req ac")
  from stream_turn_outcome [of e req ac st]
  consider (d) save where "turn_done save st (evs, st')" | (f) "turn_failed st (evs, st')"
    unfolding t by blast
  then have "one_terminal (sil @ evs)"
  proof cases
    case d
    then obtain pre cs where io: "list_all is_provider_io pre"
      and evs: "evs = pre @ chunk_writes cs @ [Write Done, End] @ fst (save (concat cs) st)"
      unfolding turn_done_def by auto
    have s: "list_all is_silent (sil @ pre @ chunk_writes cs)"
      using assms silent_io [OF io] silent_chunk_writes [of cs] by simp
    have "sil @ evs = (sil @ pre @ chunk_writes cs) @ Write Done # End # fst (save (concat cs) st)"
      by (simp add: evs)
    then show ?thesis
      using one_terminalI [OF s, of "Write Done"] by simp
  next
    case f
    then obtain pre cs m rest where io: "list_all is_provider_io pre"
      and evs: "evs = pre @ chunk_writes cs @ Write (Error m) # End # rest"
      unfolding turn_failed_def error_first_def by auto
    have s: "list_all is_silent (sil @ pre @ chunk_writes cs)"
      using assms silent_io [OF io] silent_chunk_writes [of cs] by simp
    have "sil @ evs = (sil @ pre @ chunk_writes cs) @ Write (Error m) # End # rest"
      by (simp add: evs)
    then show ?thesis
      using one_terminalI [OF s, of "Write (Error m)"] by simp
  qed
  then show ?thesis by (simp add: t)
qed

text \<open>
  A provider that rejects the request (\<^verbatim>\<open>openai.chat.completions.create\<close> and the
  \<^verbatim>\<open>fetch\<close> of the Claude adapter throw), and a state where the user \<^verbatim>\<open>u1\<close> is subscribed.
\<close>

definition env_outage :: env where
  "env_outage = env_demo\<lparr>env_openai_stream := (\<lambda>m ms. Inl (JsError ''429 Too Many Requests'')),
                          env_claude_stream := (\<lambda>m ms. Inl (JsError ''429 Too Many Requests''))\<rparr>"

definition st_subscribed :: server_state where
  "st_subscribed = st_empty\<lparr>users := [\<lparr>users_id = ''u1'', is_subscribed = Some True,
                                        stripe_subscription_id = None\<rparr>]\<rparr>"

definition req_claude :: request where
  "req_claude = req_hello\<lparr>req_model := ''claude-3-opus''\<rparr>"

text \<open>
  C2. Every request to the streaming route either is answered with one JSON status
  before the stream is opened (no session id, no message and no file, no usable
  Authorization header), or opens the stream and the client receives exactly one terminal
  event: the response ends, the last event written before its end is the done event or
  an error event, and no other terminal event precedes it.
\<close>

theorem stream_ends_with_one_terminal_event:
  "(\<exists>c m. stream_handler e st req = ([StatusJson c m], st))
   \<or> (hd (fst (stream_handler e st req)) = SetSSEHeaders
       \<and> one_terminal (fst (stream_handler e st req)))"
proof (cases rule: stream_handler_cases [of req e st])
  case (intake reply)
  then have "\<exists>c m. reply = StatusJson c m"
    by (auto simp: stream_intake_def auth_header_def split: if_splits option.splits)
  with intake(2) show ?thesis by auto
next
  case (replied token evs st1)
  from stream_access_outcome [of e st req token] replied(2)
  obtain pre m where evs: "evs = SetSSEHeaders # pre @ sse_error m" and c: "list_all is_checkpoint pre"
    by auto
  have s: "list_all is_silent (SetSSEHeaders # pre)"
    using silent_checkpoint [OF c] by (simp add: is_silent_def is_terminal_def)
  have "one_terminal ((SetSSEHeaders # pre) @ Write (Error m) # End # [])"
    by (rule one_terminalI [OF s]) blast
  then show ?thesis
    using replied(3) evs by (simp add: sse_error_def)
next
  case (turn token evs st1 ac evs2 st2)
  from stream_access_outcome [of e st req token] turn(2)
  obtain pre where evs: "evs = SetSSEHeaders # pre" and c: "list_all is_checkpoint pre"
    by auto
  have s: "list_all is_silent (SetSSEHeaders # pre)"
    using silent_checkpoint [OF c] by (simp add: is_silent_def is_terminal_def)
  have "one_terminal ((SetSSEHeaders # pre) @ fst (stream_turn e st1 req ac))"
    by (rule stream_turn_terminal [OF s])
  then show ?thesis
    using turn(3,4) evs by simp
qed

text \<open>
  When the OpenAI client throws, the adapter writes the error event and ends the
  response, and the route writes the error event again after that end; the client
  receives the first. A completed turn ends with the done event.
\<close>

theorem stream_ends_with_one_terminal_event_witness:
  "fst (stream_handler env_outage st_empty req_hello)
     = [SetSSEHeaders, GetUser, SubscriptionLookup, ChatLookup, ChatCount, PremiumGate, Net OpenAI,
        Write (Error ''Failed to generate AI response''), End,
        Write (Error ''Failed to generate AI response''), End]
   \<and> received (fst (stream_handler env_outage st_empty req_hello))
     = [SetSSEHeaders, GetUser, SubscriptionLookup, ChatLookup, ChatCount, PremiumGate, Net OpenAI,
        Write (Error ''Failed to generate AI response'')]
   \<and> terminal_events (received (fst (stream_handler env_outage st_empty req_hello)))
     = [Write (Error ''Failed to generate AI response'')]
   \<and> one_terminal (fst (stream_handler env_outage st_empty req_hello))
   \<and> fst (stream_handler env_outage st_subscribed req_claude)
     = [SetSSEHeaders, GetUser, SubscriptionLookup, ChatLookup, PremiumGate, Net Claude,
        Write (Error ''Failed to generate AI response''), End]
   \<and> terminal_events (received (fst (stream_handler env_demo st_empty req_hello))) = [Write Done]"
proof -
  have o: "fst (stream_handler env_outage st_empty req_hello)
     = [SetSSEHeaders, GetUser, SubscriptionLookup, ChatLookup, ChatCount, PremiumGate, Net OpenAI,
        Write (Error ''Failed to generate AI response''), End,
        Write (Error ''Failed to generate AI response''), End]"
    by code_simp
  have c: "fst (stream_handler env_outage st_subscribed req_claude)
     = [SetSSEHeaders, GetUser, SubscriptionLookup, ChatLookup, PremiumGate, Net Claude,
        Write (Error ''Failed to generate AI response''), End]"
    by code_simp
  have d: "fst (stream_handler env_demo st_empty req_hello)
      = [SetSSEHeaders, GetUser, SubscriptionLookup, ChatLookup, ChatCount, PremiumGate, Net OpenAI,
         Write (Chunk ''Hel''), Write (Chunk ''lo''), Write Done, End, DbInsert]"
    by code_simp
  have r: "received (fst (stream_handler env_outage st_empty req_hello))
     = [SetSSEHeaders, GetUser, SubscriptionLookup, ChatLookup, ChatCount, PremiumGate, Net OpenAI,
        Write (Error ''Failed to generate AI response'')]"
    unfolding o by (simp add: received_def)
  have t: "terminal_events (received (fst (stream_handler env_outage st_empty req_hello)))
     = [Write (Error ''Failed to generate AI response'')]"
    unfolding r by (simp add: terminal_events_def is_terminal_def)
  have t2: "terminal_events (received (fst (stream_handler env_demo st_empty req_hello))) = [Write Done]"
    unfolding d by (simp add: received_def terminal_events_def is_terminal_def)
  have "\<not> (\<exists>c m. stream_handler env_outage st_empty req_hello = ([StatusJson c m], st_empty))"
    using o by (auto simp: fst_def split: prod.splits)
  with stream_ends_with_one_terminal_event [of env_outage st_empty req_hello]
  have "one_terminal (fst (stream_handler env_outage st_empty req_hello))" by blast
  with o r t c t2 show ?thesis by blast
qed


section \<open>Images of the Gemini adapter\<close>

text \<open>An image of 11 MiB on disk, and a Gemini endpoint that answers with the inline data it was sent.\<close>

definition big_png :: upload where
  "big_png = \<lparr>originalname = ''big.png'', mimetype = ''image/png'', size_bytes = 11 * MiB,
              path = ''uploads/files-2.png'', filename = ''files-2.png''\<rparr>"

definition fs_big :: filesystem where
  "fs_big = fs_demo(''uploads/files-2.png'' \<mapsto> \<lparr>st_size = 11 * MiB, bytes = ''xyz''\<rparr>)"

definition gemini_echo :: gemini_fetch where
  "gemini_echo apiModel parts =
     Inr (Response True ''200'' ''OK'' []
            (Inr (Some [GCandidate (Some (GContent (Some
               [GPart (Some (concat (map (\<lambda>p. case p of InlineData d m \<Rightarrow> d | _ \<Rightarrow> []) parts)))])))])))"

text \<open>
  The Gemini adapter does not go through \<^const>\<open>prepareImagesForModel\<close>: its own
  \<^const>\<open>processImagesForGemini\<close> reads every image it is given, whatever its size,
  where \<^const>\<open>prepareImagesForModel\<close> with the target \<^verbatim>\<open>gemini\<close> or \<^verbatim>\<open>claude\<close>
  stats an image first and drops one of 11 MiB.
\<close>

lemma gemini_adapter_reads_every_image:
  "processImagesForGemini fs_big [big_png, cat_png]
     = ([ReadFile ''uploads/files-2.png'', ReadFile ''uploads/files-1.png''],
        [Some (InlineData ''xyz'' ''image/png''), Some (InlineData ''abc'' ''image/png'')])
   \<and> generateGeminiResponse penv_demo fs_big gemini_echo ''hi'' ''gemini-2.0-flash'' [big_png, cat_png]
     = ([ReadFile ''uploads/files-2.png'', ReadFile ''uploads/files-1.png'', Net Gemini], Inr ''xyzabc'')
   \<and> prepareImagesForModel fs_big [big_png, cat_png] ''gemini''
     = ([Stat ''uploads/files-2.png'', Stat ''uploads/files-1.png'', ReadFile ''uploads/files-1.png''],
        [None, Some (InlineData ''abc'' ''image/png'')])
   \<and> prepareImagesForModel fs_big [big_png, cat_png] ''claude''
     = ([Stat ''uploads/files-2.png'', Stat ''uploads/files-1.png'', ReadFile ''uploads/files-1.png''],
        [Some (ImagePart ''image/png'' ''abc'')])"
proof -
  have a: "processImagesForGemini fs_big [big_png, cat_png]
     = ([ReadFile ''uploads/files-2.png'', ReadFile ''uploads/files-1.png''],
        [Some (InlineData ''xyz'' ''image/png''), Some (InlineData ''abc'' ''image/png'')])"
    by code_simp
  have b: "generateGeminiResponse penv_demo fs_big gemini_echo ''hi'' ''gemini-2.0-flash'' [big_png, cat_png]
     = ([ReadFile ''uploads/files-2.png'', ReadFile ''uploads/files-1.png'', Net Gemini], Inr ''xyzabc'')"
    by code_simp
  have c: "prepareImagesForModel fs_big [big_png, cat_png] ''gemini''
     = ([Stat ''uploads/files-2.png'', Stat ''uploads/files-1.png'', ReadFile ''uploads/files-1.png''],
        [None, Some (InlineData ''abc'' ''image/png'')])"
    by code_simp
  have d: "prepareImagesForModel fs_big [big_png, cat_png] ''claude''
     = ([Stat ''uploads/files-2.png'', Stat ''uploads/files-1.png'', ReadFile ''uploads/files-1.png''],
        [Some (ImagePart ''image/png'' ''abc'')])"
    by code_simp
  show ?thesis
    using a b c d by blast
qed


section \<open>The upload middleware (server.js)\<close>

text \<open>
  The routes run behind \<^verbatim>\<open>enhancedUpload\<close>, which runs the middleware
  \<^verbatim>\<open>multer({storage, limits: {fileSize: 10 * 1024 * 1024}, fileFilter}).any()\<close>. A file
  part of the multipart body is its file name, its MIME type and its length in bytes.
  The disk storage (\<^verbatim>\<open>destination\<close>, \<^verbatim>\<open>filename\<close>, the write) is a collaborator: it
  fails or gives the directory and the name of the stored file.
\<close>

record file_part =
  fp_originalname :: string
  fp_mimetype :: string
  fp_bytes :: int

type_synonym storage = "file_part \<Rightarrow> js_error + string \<times> string"

datatype upload_error = LIMIT_FILE_SIZE | MulterError string | UploadFailure js_error

definition fileSize_limit :: int where
  "fileSize_limit = 10 * 1024 * 1024"

definition fileFilter :: "string \<Rightarrow> bool" where
  "fileFilter mt =
     (startsWith mt ''image/'' \<or> includes_str mt ''pdf'' \<or> includes_str mt ''text/''
      \<or> includes_str mt ''application/json'' \<or> includes_str mt ''csv'')"

text \<open>
  The middleware, part by part, as the library handles the parts of a body: a part
  without a file name is no file; a part the filter rejects is skipped, whatever its
  length; an accepted part is handed to the storage and, when it is longer than the
  limit, the middleware fails with the code \<^verbatim>\<open>LIMIT_FILE_SIZE\<close>; otherwise the stored
  file is appended to \<^verbatim>\<open>req.files\<close>.
\<close>

fun multer_any :: "storage \<Rightarrow> file_part list \<Rightarrow> upload_error + upload list" where
  "multer_any store [] = Inr []"
| "multer_any store (p # ps) =
     (if fp_originalname p = [] then multer_any store ps
      else if \<not> fileFilter (fp_mimetype p) then multer_any store ps
      else (case store p of
              Inl err \<Rightarrow> Inl (UploadFailure err)
            | Inr (dir, name) \<Rightarrow>
                if fp_bytes p > fileSize_limit then Inl LIMIT_FILE_SIZE
                else (case multer_any store ps of
                        Inl err \<Rightarrow> Inl err
                      | Inr files \<Rightarrow>
                          Inr (\<lparr>originalname = fp_originalname p, mimetype = fp_mimetype p,
                                size_bytes = fp_bytes p, path = dir @ ''/'' @ name,
                                filename = name\<rparr> # files))))"

definition too_large :: string where
  "too_large = ''File too large. Maximum size is 10MB.''"

definition enhancedUpload :: "storage \<Rightarrow> file_part list \<Rightarrow> event + upload list" where
  "enhancedUpload store parts =
     (case multer_any store parts of
        Inl LIMIT_FILE_SIZE \<Rightarrow> Inl (StatusJson 413 too_large)
      | Inl (MulterError m) \<Rightarrow> Inl (StatusJson 400 (''Upload error: '' @ m))
      | Inl (UploadFailure err) \<Rightarrow>
          Inl (StatusJson 500 (''Server error during upload: '' @ err_message err))
      | Inr files \<Rightarrow> Inr files)"

text \<open>The two chat routes behind the middleware; \<^verbatim>\<open>req.files\<close> is what it stored.\<close>

definition chat_route ::
  "env \<Rightarrow> server_state \<Rightarrow> storage \<Rightarrow> file_part list \<Rightarrow> request \<Rightarrow> event list \<times> server_state" where
  "chat_route e st store parts req =
     (case enhancedUpload store parts of
        Inl reply \<Rightarrow> ([reply], st)
      | Inr files \<Rightarrow> chat_handler e st (req\<lparr>req_files := files\<rparr>))"

definition stream_route ::
  "env \<Rightarrow> server_state \<Rightarrow> storage \<Rightarrow> file_part list \<Rightarrow> request \<Rightarrow> event list \<times> server_state" where
  "stream_route e st store parts req =
     (case enhancedUpload store parts of
        Inl reply \<Rightarrow> ([reply], st)
      | Inr files \<Rightarrow> stream_handler e st (req\<lparr>req_files := files\<rparr>))"

text \<open>A part that is a file of an accepted type, and a storage that stores every part.\<close>

definition accepted :: "file_part \<Rightarrow> bool" where
  "accepted p = (fp_originalname p \<noteq> [] \<and> fileFilter (fp_mimetype p))"

definition stores :: "storage \<Rightarrow> file_part list \<Rightarrow> bool" where
  "stores store parts = list_all (\<lambda>p. case store p of Inl err \<Rightarrow> False | Inr d \<Rightarrow> True) parts"

lemma multer_any_limit:
  assumes "stores store parts"
  shows "multer_any store parts = Inl LIMIT_FILE_SIZE
         \<longleftrightarrow> list_ex (\<lambda>p. accepted p \<and> fp_bytes p > fileSize_limit) parts"
  using assms
proof (induction parts)
  case Nil
  then show ?case by simp
next
  case (Cons p ps)
  then have ih: "multer_any store ps = Inl LIMIT_FILE_SIZE
         \<longleftrightarrow> list_ex (\<lambda>p. accepted p \<and> fp_bytes p > fileSize_limit) ps"
    by (simp add: stores_def)
  from Cons.prems obtain dir name where s: "store p = Inr (dir, name)"
    by (cases "store p") (auto simp: stores_def)
  show ?case
    using ih s by (cases "multer_any store ps") (auto simp: accepted_def)
qed

lemma multer_any_files:
  "multer_any store parts = Inr files \<Longrightarrow>
     list_all (\<lambda>f. size_bytes f \<le> fileSize_limit \<and> fileFilter (mimetype f)) files"
proof (induction parts arbitrary: files)
  case Nil
  then show ?case by simp
next
  case (Cons p ps)
  show ?case
  proof (cases "fp_originalname p = [] \<or> \<not> fileFilter (fp_mimetype p)")
    case True
    with Cons.prems have "multer_any store ps = Inr files" by (auto split: if_splits)
    then show ?thesis by (rule Cons.IH)
  next
    case False
    with Cons.prems obtain dir name rest where
      s: "store p = Inr (dir, name)" and le: "\<not> fp_bytes p > fileSize_limit"
      and r: "multer_any store ps = Inr rest"
      and f: "files = \<lparr>originalname = fp_originalname p, mimetype = fp_mimetype p,
                        size_bytes = fp_bytes p, path = dir @ ''/'' @ name, filename = name\<rparr> # rest"
      by (auto split: sum.splits if_splits)
    from Cons.IH [OF r] le False show ?thesis
      unfolding f by simp
  qed
qed

lemma multer_any_no_code: "multer_any store parts \<noteq> Inl (MulterError m)"
proof (induction parts)
  case (Cons p ps)
  then show ?case by (auto split: sum.splits)
qed simp


lemma enhancedUpload_limit:
  "enhancedUpload store parts = Inl (StatusJson 413 too_large)
   \<longleftrightarrow> multer_any store parts = Inl LIMIT_FILE_SIZE"
  by (auto simp: enhancedUpload_def too_large_def split: sum.splits upload_error.splits)

lemma enhancedUpload_files:
  "enhancedUpload store parts = Inr files \<longleftrightarrow> multer_any store parts = Inr files"
  by (auto simp: enhancedUpload_def split: sum.splits upload_error.splits)

text \<open>The disk holds the stored files with the sizes the middleware reports.\<close>

definition on_disk :: "filesystem \<Rightarrow> upload list \<Rightarrow> bool" where
  "on_disk fs files =
     list_all (\<lambda>f. case fs (path f) of None \<Rightarrow> False | Some ent \<Rightarrow> st_size ent = size_bytes f) files"

definition kept :: "part option list \<Rightarrow> bool" where
  "kept results = list_all (\<lambda>r. r \<noteq> None) results"

lemma data_url_image_kept:
  assumes "size_bytes f \<le> fileSize_limit" "fs (path f) = Some ent" "st_size ent = size_bytes f"
  shows "snd (data_url_image fs f) \<noteq> None"
  using assms by (simp add: data_url_image_def fileToDataURL_def fileSize_limit_def)

lemma each_image_kept:
  "list_all (\<lambda>f. snd (g f) \<noteq> None) files \<Longrightarrow> kept (snd (each_image g files))"
proof (induction files)
  case (Cons f files)
  then have "kept (snd (each_image g files))" by simp
  with Cons.prems show ?case
    by (cases "g f"; cases "each_image g files") (simp add: kept_def)
qed (simp add: kept_def)

lemma data_url_images_kept:
  assumes "list_all (\<lambda>f. size_bytes f \<le> fileSize_limit) files" "on_disk fs files"
  shows "kept (snd (each_image (data_url_image fs) (valid_image_files fs files)))"
proof (rule each_image_kept)
  have "snd (data_url_image fs f) \<noteq> None" if "f \<in> set files" for f
  proof -
    from that assms have le: "size_bytes f \<le> fileSize_limit"
      and d: "case fs (path f) of None \<Rightarrow> False | Some ent \<Rightarrow> st_size ent = size_bytes f"
      by (auto simp: list_all_iff on_disk_def)
    from d obtain ent where "fs (path f) = Some ent" "st_size ent = size_bytes f"
      by (cases "fs (path f)") auto
    with le show ?thesis by (rule data_url_image_kept)
  qed
  then show "list_all (\<lambda>f. snd (data_url_image fs f) \<noteq> None) (valid_image_files fs files)"
    by (auto simp: list_all_iff valid_image_files_def)
qed

lemma target_openai: "\<not> includes_str ''openai'' ''claude''" "\<not> includes_str ''openai'' ''gemini''"
  by code_simp+

lemma target_grok: "\<not> includes_str ''grok'' ''claude''" "\<not> includes_str ''grok'' ''gemini''"
  by code_simp+

lemma data_url_targets_kept:
  assumes "list_all (\<lambda>f. size_bytes f \<le> fileSize_limit) files" "on_disk fs files"
  shows "kept (snd (prepareImagesForModel fs files ''openai''))"
    and "kept (snd (prepareImagesForModel fs files ''grok''))"
  using data_url_images_kept [OF assms]
  by (simp_all add: prepareImagesForModel_def Let_def target_openai target_grok kept_def
        del: includes_str.simps)

definition big_zip :: file_part where
  "big_zip = \<lparr>fp_originalname = ''big.zip'', fp_mimetype = ''application/zip'', fp_bytes = 11 * MiB\<rparr>"

definition big_image :: file_part where
  "big_image = \<lparr>fp_originalname = ''big.png'', fp_mimetype = ''image/png'', fp_bytes = 11 * MiB\<rparr>"

definition cat_image :: file_part where
  "cat_image = \<lparr>fp_originalname = ''cat.png'', fp_mimetype = ''image/png'', fp_bytes = 3\<rparr>"

definition store_demo :: storage where
  "store_demo p =
     Inr (''uploads'', if fp_originalname p = ''cat.png'' then ''files-1.png'' else ''files-2.png'')"

text \<open>
  C9 as stated: every uploaded file above 10 MiB has the request rejected with status
  413. It fails for a file of a type the filter of the middleware rejects: the archive
  of 11 MiB is skipped, the request goes on to the route without it and is answered.
\<close>

theorem oversized_rejected_type_is_skipped:
  "fp_bytes big_zip > 10 * 1024 * 1024
   \<and> enhancedUpload store_demo [big_zip] = Inr []
   \<and> fst (chat_route env_demo st_empty store_demo [big_zip] req_hello)
     = [GetUser, SubscriptionLookup, ChatLookup, ChatCount, PremiumGate, Net OpenAI, DbInsert,
        ReplyJson ''Hello'']
   \<and> fst (stream_route env_demo st_empty store_demo [big_zip] req_hello)
     = [SetSSEHeaders, GetUser, SubscriptionLookup, ChatLookup, ChatCount, PremiumGate, Net OpenAI,
        Write (Chunk ''Hel''), Write (Chunk ''lo''), Write Done, End, DbInsert]"
proof -
  have a: "fp_bytes big_zip > 10 * 1024 * 1024" by code_simp
  have b: "enhancedUpload store_demo [big_zip] = Inr []" by code_simp
  have c: "fst (chat_route env_demo st_empty store_demo [big_zip] req_hello)
     = [GetUser, SubscriptionLookup, ChatLookup, ChatCount, PremiumGate, Net OpenAI, DbInsert,
        ReplyJson ''Hello'']"
    by code_simp
  have d: "fst (stream_route env_demo st_empty store_demo [big_zip] req_hello)
     = [SetSSEHeaders, GetUser, SubscriptionLookup, ChatLookup, ChatCount, PremiumGate, Net OpenAI,
        Write (Chunk ''Hel''), Write (Chunk ''lo''), Write Done, End, DbInsert]"
    by code_simp
  show ?thesis using a b c d by blast
qed

text \<open>
  C9, amended. With a storage that stores the files: the middleware answers 413 iff the
  body holds a file of an accepted type (an image, or a type naming \<^verbatim>\<open>pdf\<close>, \<^verbatim>\<open>text/\<close>,
  \<^verbatim>\<open>application/json\<close> or \<^verbatim>\<open>csv\<close>) above 10 MiB. Whenever the middleware answers, its
  reply is the only event of the request: nothing of the route has run, neither the
  authentication nor the attachment processing. Otherwise the route runs on the stored
  files, each of them of an accepted type and at most 10 MiB, so that no file above 10
  MiB reaches the attachment processor; and when the disk holds the files as stored, the
  checks of the targets \<^verbatim>\<open>openai\<close> and \<^verbatim>\<open>grok\<close> (20 MiB, then 10 MiB for the data URL)
  drop none of them.
\<close>

theorem oversized_accepted_upload_is_rejected:
  "(stores store parts \<longrightarrow>
      (list_ex (\<lambda>p. accepted p \<and> fp_bytes p > fileSize_limit) parts
       \<longleftrightarrow> enhancedUpload store parts = Inl (StatusJson 413 too_large)))
   \<and> (\<forall>reply. enhancedUpload store parts = Inl reply \<longrightarrow>
         chat_route e st store parts req = ([reply], st)
         \<and> stream_route e st store parts req = ([reply], st))
   \<and> (\<forall>files. enhancedUpload store parts = Inr files \<longrightarrow>
         chat_route e st store parts req = chat_handler e st (req\<lparr>req_files := files\<rparr>)
         \<and> stream_route e st store parts req = stream_handler e st (req\<lparr>req_files := files\<rparr>)
         \<and> list_all (\<lambda>f. size_bytes f \<le> 10 * MiB \<and> fileFilter (mimetype f)) files
         \<and> (on_disk fs files \<longrightarrow>
               kept (snd (prepareImagesForModel fs files ''openai''))
               \<and> kept (snd (prepareImagesForModel fs files ''grok''))))"
proof -
  have a: "stores store parts \<Longrightarrow>
      (list_ex (\<lambda>p. accepted p \<and> fp_bytes p > fileSize_limit) parts
       \<longleftrightarrow> enhancedUpload store parts = Inl (StatusJson 413 too_large))"
    using multer_any_limit [of store parts] enhancedUpload_limit [of store parts] by simp
  have b: "chat_route e st store parts req = ([reply], st)
         \<and> stream_route e st store parts req = ([reply], st)"
    if "enhancedUpload store parts = Inl reply" for reply
    using that by (simp add: chat_route_def stream_route_def)
  have c: "chat_route e st store parts req = chat_handler e st (req\<lparr>req_files := files\<rparr>)
         \<and> stream_route e st store parts req = stream_handler e st (req\<lparr>req_files := files\<rparr>)
         \<and> list_all (\<lambda>f. size_bytes f \<le> 10 * MiB \<and> fileFilter (mimetype f)) files
         \<and> (on_disk fs files \<longrightarrow>
               kept (snd (prepareImagesForModel fs files ''openai''))
               \<and> kept (snd (prepareImagesForModel fs files ''grok'')))"
    if u: "enhancedUpload store parts = Inr files" for files
  proof -
    have m: "multer_any store parts = Inr files"
      using u enhancedUpload_files by simp
    have l: "list_all (\<lambda>f. size_bytes f \<le> fileSize_limit \<and> fileFilter (mimetype f)) files"
      using multer_any_files [OF m] .
    then have l1: "list_all (\<lambda>f. size_bytes f \<le> fileSize_limit) files"
      by (simp add: list_all_iff)
    have l2: "list_all (\<lambda>f. size_bytes f \<le> 10 * MiB \<and> fileFilter (mimetype f)) files"
      using l by (simp add: fileSize_limit_def MiB_def)
    show ?thesis
      using u l2 data_url_targets_kept [OF l1]
      by (simp add: chat_route_def stream_route_def)
  qed
  show ?thesis using a b c by blast
qed

theorem oversized_accepted_upload_is_rejected_witness:
  "stores store_demo [cat_image, big_zip, big_image]
   \<and> list_ex (\<lambda>p. accepted p \<and> fp_bytes p > fileSize_limit) [cat_image, big_zip, big_image]
   \<and> enhancedUpload store_demo [cat_image, big_zip, big_image] = Inl (StatusJson 413 too_large)
   \<and> chat_route env_demo st_empty store_demo [cat_image, big_zip, big_image] req_hello
       = ([StatusJson 413 too_large], st_empty)
   \<and> stream_route env_demo st_empty store_demo [cat_image, big_zip, big_image] req_hello
       = ([StatusJson 413 too_large], st_empty)
   \<and> enhancedUpload store_demo [cat_image, big_zip] = Inr [cat_png]
   \<and> on_disk fs_demo [cat_png]
   \<and> size_bytes cat_png \<le> 10 * MiB
   \<and> kept (snd (prepareImagesForModel fs_demo [cat_png] ''openai''))
   \<and> kept (snd (prepareImagesForModel fs_demo [cat_png] ''grok''))"
proof -
  note big = oversized_accepted_upload_is_rejected
    [where store = store_demo and parts = "[cat_image, big_zip, big_image]" and e = env_demo
       and st = st_empty and req = req_hello and fs = fs_demo]
  note small = oversized_accepted_upload_is_rejected
    [where store = store_demo and parts = "[cat_image, big_zip]" and e = env_demo
       and st = st_empty and req = req_hello and fs = fs_demo]
  have s: "stores store_demo [cat_image, big_zip, big_image]" by code_simp
  have x: "list_ex (\<lambda>p. accepted p \<and> fp_bytes p > fileSize_limit) [cat_image, big_zip, big_image]"
    by code_simp
  have u: "enhancedUpload store_demo [cat_image, big_zip] = Inr [cat_png]" by code_simp
  have d: "on_disk fs_demo [cat_png]" by code_simp
  from big s x have r: "enhancedUpload store_demo [cat_image, big_zip, big_image]
                          = Inl (StatusJson 413 too_large)"
    by blast
  from big r have r2: "chat_route env_demo st_empty store_demo [cat_image, big_zip, big_image] req_hello
       = ([StatusJson 413 too_large], st_empty)"
    "stream_route env_demo st_empty store_demo [cat_image, big_zip, big_image] req_hello
       = ([StatusJson 413 too_large], st_empty)"
    by blast+
  from small u d have k: "list_all (\<lambda>f. size_bytes f \<le> 10 * MiB \<and> fileFilter (mimetype f)) [cat_png]"
    "kept (snd (prepareImagesForModel fs_demo [cat_png] ''openai''))"
    "kept (snd (prepareImagesForModel fs_demo [cat_png] ''grok''))"
    by blast+
  from k(1) have "size_bytes cat_png \<le> 10 * MiB" by simp
  with s x r r2 u d k show ?thesis by blast
qed


section \<open>Size ceilings of the attachment processor\<close>

lemma each_image_append:
  "each_image g (xs @ ys)
   = (fst (each_image g xs) @ fst (each_image g ys), snd (each_image g xs) @ snd (each_image g ys))"
proof (induction xs)
  case (Cons x xs)
  then show ?case
    by (cases "g x"; cases "each_image g xs"; cases "each_image g ys") simp
qed simp

lemma non_null_append: "non_null (xs @ ys) = non_null xs @ non_null ys"
  by (simp add: non_null_def map_filter_def)

lemma non_null_Some: "non_null (map Some xs) = xs"
  by (induction xs) (simp_all add: non_null_def map_filter_def)

lemma valid_image_files_idem: "valid_image_files fs (valid_image_files fs files) = valid_image_files fs files"
  by (simp add: valid_image_files_def)

lemma target_claude: "includes_str ''claude'' ''claude''" by code_simp

lemma target_gemini: "\<not> includes_str ''gemini'' ''claude''" "includes_str ''gemini'' ''gemini''"
  by code_simp+

text \<open>The function an image goes through for a target.\<close>

definition image_for :: "filesystem \<Rightarrow> string \<Rightarrow> upload \<Rightarrow> event list \<times> part option" where
  "image_for fs target =
     (if target = ''claude'' then claude_image fs
      else if target = ''gemini'' then gemini_image fs else data_url_image fs)"

lemma prepare_each:
  assumes "target \<in> {''claude'', ''gemini'', ''openai'', ''grok''}"
  shows "fst (prepareImagesForModel fs files target)
           = fst (each_image (image_for fs target) (valid_image_files fs files))"
    and "non_null (snd (prepareImagesForModel fs files target))
           = non_null (snd (each_image (image_for fs target) (valid_image_files fs files)))"
proof -
  let ?V = "valid_image_files fs files"
  consider (c) "target = ''claude''" | (g) "target = ''gemini''" | (o) "target = ''openai''"
    | (k) "target = ''grok''"
    using assms by blast
  then have "fst (prepareImagesForModel fs files target) = fst (each_image (image_for fs target) ?V)
    \<and> non_null (snd (prepareImagesForModel fs files target))
        = non_null (snd (each_image (image_for fs target) ?V))"
  proof cases
    case c
    show ?thesis
      by (cases "each_image (claude_image fs) ?V")
         (auto simp add: c prepareImagesForModel_def prepareClaudeImages_def Let_def target_claude
            valid_image_files_idem image_for_def non_null_Some simp del: includes_str.simps)
  next
    case g
    show ?thesis
      by (simp add: g prepareImagesForModel_def Let_def target_gemini image_for_def
            del: includes_str.simps)
  next
    case o
    show ?thesis
      by (simp add: o prepareImagesForModel_def Let_def target_openai image_for_def
            del: includes_str.simps)
  next
    case k
    show ?thesis
      by (simp add: k prepareImagesForModel_def Let_def target_grok image_for_def
            del: includes_str.simps)
  qed
  then show "fst (prepareImagesForModel fs files target)
           = fst (each_image (image_for fs target) (valid_image_files fs files))"
    and "non_null (snd (prepareImagesForModel fs files target))
           = non_null (snd (each_image (image_for fs target) (valid_image_files fs files)))"
    by simp_all
qed

text \<open>The ceilings of the claim.\<close>

definition ceiling_of :: "string \<Rightarrow> int" where
  "ceiling_of target = (if target = ''claude'' \<or> target = ''gemini'' then 10 * MiB else 20 * MiB)"

lemma image_for_above:
  assumes "fs (path f) = Some ent" "st_size ent > ceiling_of target"
  shows "image_for fs target f = ([Stat (path f)], None)"
  using assms
  by (auto simp: image_for_def ceiling_of_def claude_image_def gemini_image_def data_url_image_def
        MiB_def split: if_splits)

definition above_ceiling :: "filesystem \<Rightarrow> string \<Rightarrow> upload \<Rightarrow> bool" where
  "above_ceiling fs target f =
     (is_image f \<and> (case fs (path f) of None \<Rightarrow> False | Some ent \<Rightarrow> st_size ent > ceiling_of target))"

lemma prepare_dropped:
  assumes t: "target \<in> {''claude'', ''gemini'', ''openai'', ''grok''}"
    and a: "above_ceiling fs target f"
  shows "fst (prepareImagesForModel fs (xs @ f # ys) target)
           = fst (prepareImagesForModel fs xs target) @ [Stat (path f)]
             @ fst (prepareImagesForModel fs ys target)"
    and "non_null (snd (prepareImagesForModel fs (xs @ f # ys) target))
           = non_null (snd (prepareImagesForModel fs xs target))
             @ non_null (snd (prepareImagesForModel fs ys target))"
proof -
  from a obtain ent where e: "fs (path f) = Some ent" "st_size ent > ceiling_of target" and i: "is_image f"
    by (cases "fs (path f)") (auto simp: above_ceiling_def)
  have m: "mimetype f \<noteq> []"
    using i by (auto simp: is_image_def startsWith_prefix)
  have v: "valid_image_files fs (xs @ f # ys) = valid_image_files fs xs @ f # valid_image_files fs ys"
    using i m e(1) by (simp add: valid_image_files_def existsSync_def)
  have d: "image_for fs target f = ([Stat (path f)], None)"
    by (rule image_for_above [of fs f ent target, OF e(1) e(2)])
  let ?g = "image_for fs target"
  have ea: "each_image ?g (valid_image_files fs xs @ f # valid_image_files fs ys)
          = (fst (each_image ?g (valid_image_files fs xs)) @ [Stat (path f)]
               @ fst (each_image ?g (valid_image_files fs ys)),
             snd (each_image ?g (valid_image_files fs xs)) @ None
               # snd (each_image ?g (valid_image_files fs ys)))"
    using each_image_append [of ?g "valid_image_files fs xs" "f # valid_image_files fs ys"] d
    by (cases "each_image ?g (valid_image_files fs ys)") simp
  show "fst (prepareImagesForModel fs (xs @ f # ys) target)
           = fst (prepareImagesForModel fs xs target) @ [Stat (path f)]
             @ fst (prepareImagesForModel fs ys target)"
    using prepare_each(1) [OF t] v ea by simp
  show "non_null (snd (prepareImagesForModel fs (xs @ f # ys) target))
           = non_null (snd (prepareImagesForModel fs xs target))
             @ non_null (snd (prepareImagesForModel fs ys target))"
    using prepare_each(2) [OF t] v ea by (simp add: non_null_append non_null_def map_filter_def)
qed


text \<open>An image of 21 MiB on disk.\<close>

definition huge_png :: upload where
  "huge_png = \<lparr>originalname = ''huge.png'', mimetype = ''image/png'', size_bytes = 21 * MiB,
               path = ''uploads/files-3.png'', filename = ''files-3.png''\<rparr>"

definition fs_huge :: filesystem where
  "fs_huge = fs_big(''uploads/files-3.png'' \<mapsto> \<lparr>st_size = 21 * MiB, bytes = ''uvw''\<rparr>)"

text \<open>
  C6 as stated: an uploaded image above the ceiling of its provider is dropped and the
  remaining files are processed. It fails: an upload of a small image and an image of 11
  MiB, above the ceiling of 10 MiB of Claude, is rejected whole by the upload middleware
  with status 413, and the small image is not processed.
\<close>

theorem oversized_upload_aborts_the_request:
  "accepted cat_image \<and> accepted big_image
   \<and> fp_bytes big_image > ceiling_of ''claude''
   \<and> chat_route env_demo st_subscribed store_demo [cat_image, big_image] req_claude
       = ([StatusJson 413 too_large], st_subscribed)
   \<and> stream_route env_demo st_subscribed store_demo [cat_image, big_image] req_claude
       = ([StatusJson 413 too_large], st_subscribed)"
proof -
  have a: "accepted cat_image" "accepted big_image" by code_simp+
  have b: "fp_bytes big_image > ceiling_of ''claude''" by code_simp
  have u: "enhancedUpload store_demo [cat_image, big_image] = Inl (StatusJson 413 too_large)"
    by code_simp
  have c: "chat_route env_demo st_subscribed store_demo [cat_image, big_image] req_claude
       = ([StatusJson 413 too_large], st_subscribed)"
    by (simp add: chat_route_def u)
  have d: "stream_route env_demo st_subscribed store_demo [cat_image, big_image] req_claude
       = ([StatusJson 413 too_large], st_subscribed)"
    by (simp add: stream_route_def u)
  show ?thesis using a b c d by blast
qed

text \<open>
  C6, amended. Of the images handed to \<^const>\<open>prepareImagesForModel\<close> for one of its
  targets \<^verbatim>\<open>claude\<close>, \<^verbatim>\<open>gemini\<close>, \<^verbatim>\<open>openai\<close>, \<^verbatim>\<open>grok\<close>, an image whose size on disk
  is above the ceiling of the target (10 MiB for \<^verbatim>\<open>claude\<close> and \<^verbatim>\<open>gemini\<close>, 20 MiB for
  \<^verbatim>\<open>openai\<close> and \<^verbatim>\<open>grok\<close>) is statted and not read, it is left out of the result, and
  the files before and after it are processed as they are without it. An upload with a
  file of an accepted type above 10 MiB does not get that far: with a storage that stores
  the files, the middleware rejects the whole request with status 413.
\<close>

theorem ceilings_drop_in_the_processor_and_uploads_abort:
  "(target \<in> {''claude'', ''gemini'', ''openai'', ''grok''} \<and> above_ceiling fs target f \<longrightarrow>
      fst (prepareImagesForModel fs (xs @ f # ys) target)
        = fst (prepareImagesForModel fs xs target) @ [Stat (path f)]
          @ fst (prepareImagesForModel fs ys target)
      \<and> non_null (snd (prepareImagesForModel fs (xs @ f # ys) target))
        = non_null (snd (prepareImagesForModel fs xs target))
          @ non_null (snd (prepareImagesForModel fs ys target)))
   \<and> (stores store parts \<and> list_ex (\<lambda>p. accepted p \<and> fp_bytes p > 10 * MiB) parts \<longrightarrow>
        chat_route e st store parts req = ([StatusJson 413 too_large], st)
        \<and> stream_route e st store parts req = ([StatusJson 413 too_large], st))"
proof (intro conjI impI)
  assume a: "target \<in> {''claude'', ''gemini'', ''openai'', ''grok''} \<and> above_ceiling fs target f"
  then have t: "target \<in> {''claude'', ''gemini'', ''openai'', ''grok''}"
    and ab: "above_ceiling fs target f" by simp_all
  show "fst (prepareImagesForModel fs (xs @ f # ys) target)
        = fst (prepareImagesForModel fs xs target) @ [Stat (path f)]
          @ fst (prepareImagesForModel fs ys target)"
    by (rule prepare_dropped(1) [OF t ab])
  show "non_null (snd (prepareImagesForModel fs (xs @ f # ys) target))
        = non_null (snd (prepareImagesForModel fs xs target))
          @ non_null (snd (prepareImagesForModel fs ys target))"
    by (rule prepare_dropped(2) [OF t ab])
next
  assume a: "stores store parts \<and> list_ex (\<lambda>p. accepted p \<and> fp_bytes p > 10 * MiB) parts"
  then have "list_ex (\<lambda>p. accepted p \<and> fp_bytes p > fileSize_limit) parts"
    by (simp add: fileSize_limit_def MiB_def)
  with a have u: "enhancedUpload store parts = Inl (StatusJson 413 too_large)"
    using multer_any_limit [of store parts] enhancedUpload_limit [of store parts] by simp
  show "chat_route e st store parts req = ([StatusJson 413 too_large], st)"
    by (simp add: chat_route_def u)
  show "stream_route e st store parts req = ([StatusJson 413 too_large], st)"
    by (simp add: stream_route_def u)
qed

theorem ceilings_drop_in_the_processor_and_uploads_abort_witness:
  "above_ceiling fs_huge ''claude'' big_png \<and> above_ceiling fs_huge ''openai'' huge_png
   \<and> \<not> above_ceiling fs_huge ''openai'' big_png
   \<and> prepareImagesForModel fs_huge [cat_png, big_png] ''claude''
       = ([Stat ''uploads/files-1.png'', ReadFile ''uploads/files-1.png'', Stat ''uploads/files-2.png''],
          [Some (ImagePart ''image/png'' ''abc'')])
   \<and> fst (prepareImagesForModel fs_huge [huge_png, cat_png] ''openai'')
       = [Stat ''uploads/files-3.png'', Stat ''uploads/files-1.png'', Stat ''uploads/files-1.png'',
          ReadFile ''uploads/files-1.png'']
   \<and> non_null (snd (prepareImagesForModel fs_huge [huge_png, cat_png] ''openai''))
       = [ImageUrlPart ''image/png'' ''abc'']
   \<and> stores store_demo [cat_image, big_image]
   \<and> list_ex (\<lambda>p. accepted p \<and> fp_bytes p > 10 * MiB) [cat_image, big_image]
   \<and> chat_route env_demo st_empty store_demo [cat_image, big_image] req_hello
       = ([StatusJson 413 too_large], st_empty)
   \<and> stream_route env_demo st_empty store_demo [cat_image, big_image] req_hello
       = ([StatusJson 413 too_large], st_empty)"
proof -
  have a1: "above_ceiling fs_huge ''claude'' big_png" by code_simp
  have a2: "above_ceiling fs_huge ''openai'' huge_png" by code_simp
  have a3: "\<not> above_ceiling fs_huge ''openai'' big_png" by code_simp
  have p0: "prepareImagesForModel fs_huge [cat_png] ''claude''
       = ([Stat ''uploads/files-1.png'', ReadFile ''uploads/files-1.png''],
          [Some (ImagePart ''image/png'' ''abc'')])" by code_simp
  have p1: "prepareImagesForModel fs_huge [cat_png, big_png] ''claude''
       = ([Stat ''uploads/files-1.png'', ReadFile ''uploads/files-1.png'', Stat ''uploads/files-2.png''],
          [Some (ImagePart ''image/png'' ''abc'')])" by code_simp
  have p2: "prepareImagesForModel fs_huge [cat_png] ''openai''
       = ([Stat ''uploads/files-1.png'', Stat ''uploads/files-1.png'', ReadFile ''uploads/files-1.png''],
          [Some (ImageUrlPart ''image/png'' ''abc'')])" by code_simp
  have p3: "prepareImagesForModel fs_huge [] ''openai'' = ([], [])" by code_simp
  have s: "stores store_demo [cat_image, big_image]" by code_simp
  have x: "list_ex (\<lambda>p. accepted p \<and> fp_bytes p > 10 * MiB) [cat_image, big_image]" by code_simp
  note i1 = ceilings_drop_in_the_processor_and_uploads_abort
    [where target = "''openai''" and fs = fs_huge and f = huge_png and xs = "[]" and ys = "[cat_png]"
       and store = store_demo and parts = "[cat_image, big_image]" and e = env_demo and st = st_empty
       and req = req_hello]
  from i1 a2 have "fst (prepareImagesForModel fs_huge ([] @ huge_png # [cat_png]) ''openai'')
        = fst (prepareImagesForModel fs_huge [] ''openai'') @ [Stat (path huge_png)]
          @ fst (prepareImagesForModel fs_huge [cat_png] ''openai'')"
    "non_null (snd (prepareImagesForModel fs_huge ([] @ huge_png # [cat_png]) ''openai''))
        = non_null (snd (prepareImagesForModel fs_huge [] ''openai''))
          @ non_null (snd (prepareImagesForModel fs_huge [cat_png] ''openai''))"
    by blast+
  then have o: "fst (prepareImagesForModel fs_huge [huge_png, cat_png] ''openai'')
       = [Stat ''uploads/files-3.png'', Stat ''uploads/files-1.png'', Stat ''uploads/files-1.png'',
          ReadFile ''uploads/files-1.png'']"
    "non_null (snd (prepareImagesForModel fs_huge [huge_png, cat_png] ''openai''))
       = [ImageUrlPart ''image/png'' ''abc'']"
    by (simp_all add: p2 p3 huge_png_def non_null_def map_filter_def)
  from i1 s x have r: "chat_route env_demo st_empty store_demo [cat_image, big_image] req_hello
       = ([StatusJson 413 too_large], st_empty)"
    "stream_route env_demo st_empty store_demo [cat_image, big_image] req_hello
       = ([StatusJson 413 too_large], st_empty)"
    by blast+
  from a1 a2 a3 p1 o s x r show ?thesis by blast
qed

end
